theory Spec2Isabelle
  imports Complex_Main
begin

section \<open>The graph model: the operations of the graph library that the program calls\<close>

text \<open>
  The program builds and mutates objects of the class \<open>Graph\<close> of the networkx library.
  Such an object keeps an insertion-ordered dictionary from each node to the
  insertion-ordered dictionary of its neighbours (the edge attributes are always empty
  here). The record below keeps the keys of the outer dictionary in \<open>nodes\<close>, in
  insertion order, and the keys of each inner dictionary in \<open>adj\<close>. An undirected edge
  \<open>u - v\<close> is stored twice, \<open>v\<close> among the neighbours of \<open>u\<close> and \<open>u\<close> among those of
  \<open>v\<close>; a self-loop \<open>u - u\<close> is stored once, \<open>u\<close> among its own neighbours.
\<close>

record 'a graph =
  nodes :: "'a list"
  adj :: "'a \<Rightarrow> 'a list"

datatype error = NetworkXError | KeyError | ValueError

text \<open>\<open>nx.Graph()\<close>: no node, no edge.\<close>

definition empty_graph :: "'a graph" where
  "empty_graph = \<lparr>nodes = [], adj = (\<lambda>_. [])\<rparr>"

text \<open>\<open>G.add_node(n)\<close>: a new node gets an empty neighbour dictionary; a known node is kept.\<close>

definition add_node :: "'a \<Rightarrow> 'a graph \<Rightarrow> 'a graph" where
  "add_node n G =
     (if n \<in> set (nodes G) then G
      else \<lparr>nodes = nodes G @ [n], adj = (adj G)(n := [])\<rparr>)"

text \<open>The assignment \<open>G._adj[u][v] = {}\<close>: a new key goes to the end, a known key stays.\<close>

definition put_nbr :: "'a \<Rightarrow> 'a \<Rightarrow> 'a graph \<Rightarrow> 'a graph" where
  "put_nbr u v G =
     \<lparr>nodes = nodes G,
      adj = (adj G)(u := (if v \<in> set (adj G u) then adj G u else adj G u @ [v]))\<rparr>"

text \<open>
  \<open>G.add_edge(u, v)\<close>: both endpoints become nodes if they are not yet, then \<open>v\<close> is
  recorded as a neighbour of \<open>u\<close> and \<open>u\<close> as a neighbour of \<open>v\<close>. The library has no
  test \<open>u == v\<close>: with equal endpoints the node becomes its own neighbour.
\<close>

definition add_edge :: "'a \<Rightarrow> 'a \<Rightarrow> 'a graph \<Rightarrow> 'a graph" where
  "add_edge u v G = put_nbr v u (put_nbr u v (add_node v (add_node u G)))"

text \<open>\<open>G.add_edges_from(edges)\<close>: \<open>add_edge\<close> for each pair, in order.\<close>

definition add_edges_from :: "('a \<times> 'a) list \<Rightarrow> 'a graph \<Rightarrow> 'a graph" where
  "add_edges_from es G = fold (\<lambda>(u, v). add_edge u v) es G"

text \<open>\<open>G.has_edge(u, v)\<close>: false when \<open>u\<close> is no node (the library catches the key error).\<close>

definition has_edge :: "'a graph \<Rightarrow> 'a \<Rightarrow> 'a \<Rightarrow> bool" where
  "has_edge G u v = (u \<in> set (nodes G) \<and> v \<in> set (adj G u))"

text \<open>\<open>list(G.neighbors(u))\<close>.\<close>

definition neighbors :: "'a graph \<Rightarrow> 'a \<Rightarrow> 'a list" where
  "neighbors G u = adj G u"

text \<open>
  The degree the library reports for \<open>n\<close>: the number of its neighbours, plus one when
  \<open>n\<close> is its own neighbour (a self-loop counts twice).
\<close>

definition degree :: "'a graph \<Rightarrow> 'a \<Rightarrow> nat" where
  "degree G n = length (adj G n) + (if n \<in> set (adj G n) then 1 else 0)"

definition number_of_nodes :: "'a graph \<Rightarrow> nat" where
  "number_of_nodes G = length (nodes G)"

text \<open>
  The effect of removing a node that is in the graph: its key is deleted from the
  dictionary of each of its neighbours, then its own dictionary is deleted.
\<close>

definition drop_node :: "'a \<Rightarrow> 'a graph \<Rightarrow> 'a graph" where
  "drop_node n G =
     \<lparr>nodes = removeAll n (nodes G),
      adj = (\<lambda>m. if m = n then []
                 else if m \<in> set (adj G n) then removeAll n (adj G m)
                 else adj G m)\<rparr>"

text \<open>\<open>G.remove_node(n)\<close>: raises \<open>NetworkXError\<close> when \<open>n\<close> is not a node.\<close>

definition remove_node :: "'a \<Rightarrow> 'a graph \<Rightarrow> error + 'a graph" where
  "remove_node n G =
     (if n \<in> set (nodes G) then Inr (drop_node n G) else Inl NetworkXError)"

text \<open>\<open>G.remove_nodes_from(ns)\<close>: as \<open>remove_node\<close>, but an unknown node is passed over.\<close>

definition remove_nodes_from :: "'a list \<Rightarrow> 'a graph \<Rightarrow> 'a graph" where
  "remove_nodes_from ns G =
     fold (\<lambda>n H. if n \<in> set (nodes H) then drop_node n H else H) ns G"

text \<open>\<open>list(nx.isolates(G))\<close>: the nodes of degree 0, in node order.\<close>

definition isolates :: "'a graph \<Rightarrow> 'a list" where
  "isolates G = filter (\<lambda>n. degree G n = 0) (nodes G)"

text \<open>
  \<open>G.copy()\<close>: a new graph that receives the nodes of \<open>G\<close> in order and then, for each
  node \<open>u\<close> in order and each neighbour \<open>v\<close> of \<open>u\<close> in order, the edge \<open>(u, v)\<close>.
\<close>

definition adj_pairs :: "'a graph \<Rightarrow> ('a \<times> 'a) list" where
  "adj_pairs G = concat (map (\<lambda>u. map (Pair u) (adj G u)) (nodes G))"

definition copy :: "'a graph \<Rightarrow> 'a graph" where
  "copy G = add_edges_from (adj_pairs G) (fold add_node (nodes G) empty_graph)"

text \<open>
  \<open>list(G.edges())\<close>: each edge once, reported from the endpoint that comes first in
  node order (a neighbour already visited as a node is passed over).
\<close>

fun edges_from :: "'a graph \<Rightarrow> 'a list \<Rightarrow> 'a list \<Rightarrow> ('a \<times> 'a) list" where
  "edges_from G seen [] = []"
| "edges_from G seen (u # us) =
     map (Pair u) (filter (\<lambda>v. v \<notin> set seen) (adj G u)) @ edges_from G (u # seen) us"

definition edges :: "'a graph \<Rightarrow> ('a \<times> 'a) list" where
  "edges G = edges_from G [] (nodes G)"

section \<open>The store of graph objects\<close>

text \<open>
  The reducer mutates a graph object in place, so graph objects live in a store: the
  address of an object is its index, and creating an object appends it.
\<close>

type_synonym 'a store = "'a graph list"

section \<open>The reducer\<close>

text \<open>The list \<open>degree_two_nodes\<close> that each iteration of the loop computes.\<close>

definition degree_two_nodes :: "'a graph \<Rightarrow> 'a list" where
  "degree_two_nodes G = filter (\<lambda>n. degree G n = 2) (nodes G)"

text \<open>
  The \<open>while True\<close> loop of \<open>get_kuratowski_minor\<close> on the object at address \<open>q\<close>. Each
  iteration takes one unit of fuel, the one that leaves the loop too; \<open>None\<close> means that
  the fuel did not suffice. An iteration whose node has degree 2 but not exactly two
  neighbours changes nothing and the loop goes on.
\<close>

primrec minor_loop :: "nat \<Rightarrow> nat \<Rightarrow> 'a store \<Rightarrow> (error + 'a store) option" where
  "minor_loop 0 q s = None"
| "minor_loop (Suc k) q s =
     (case degree_two_nodes (s ! q) of
        [] \<Rightarrow> Some (Inr s)
      | u # _ \<Rightarrow>
          (case neighbors (s ! q) u of
             [v1, v2] \<Rightarrow>
               (let s1 = (if v1 \<noteq> v2 \<and> \<not> has_edge (s ! q) v1 v2
                          then s[q := add_edge v1 v2 (s ! q)] else s)
                in case remove_node u (s1 ! q) of
                     Inl e \<Rightarrow> Some (Inl e)
                   | Inr g \<Rightarrow> minor_loop k q (s1[q := g]))
           | _ \<Rightarrow> minor_loop k q s))"

text \<open>
  \<open>get_kuratowski_minor\<close>: the copy is a new object, the loop and the removal of the
  isolated nodes work on it, and its address is returned with the new store.
\<close>

definition get_kuratowski_minor ::
  "nat \<Rightarrow> nat \<Rightarrow> 'a store \<Rightarrow> (error + nat \<times> 'a store) option" where
  "get_kuratowski_minor fuel p s =
     (let q = length s; s0 = s @ [copy (s ! p)] in
      case minor_loop fuel q s0 of
        None \<Rightarrow> None
      | Some (Inl e) \<Rightarrow> Some (Inl e)
      | Some (Inr s1) \<Rightarrow>
          Some (Inr (q, s1[q := remove_nodes_from (isolates (s1 ! q)) (s1 ! q)])))"

text \<open>
  The graphs the library can build: the nodes are distinct, each neighbour dictionary
  has distinct keys that are nodes, and adjacency is symmetric.
\<close>

definition wf_graph :: "'a graph \<Rightarrow> bool" where
  "wf_graph G =
     (distinct (nodes G) \<and>
      (\<forall>u \<in> set (nodes G). distinct (adj G u) \<and>
         (\<forall>v \<in> set (adj G u). v \<in> set (nodes G) \<and> u \<in> set (adj G v))))"

definition no_self_loops :: "'a graph \<Rightarrow> bool" where
  "no_self_loops G = (\<forall>n \<in> set (nodes G). n \<notin> set (adj G n))"

text \<open>Equality of graphs: the same nodes in the same order, the same neighbours.\<close>

definition same_graph :: "'a graph \<Rightarrow> 'a graph \<Rightarrow> bool" where
  "same_graph G H =
     (nodes G = nodes H \<and> (\<forall>n \<in> set (nodes G). set (adj G n) = set (adj H n)))"


text \<open>
  The effect of one iteration of the loop that finds the node \<open>u\<close> with the two
  neighbours \<open>v1\<close> and \<open>v2\<close>: the edge between the neighbours is added when it is
  missing, then \<open>u\<close> is removed.
\<close>

definition contract :: "'a graph \<Rightarrow> 'a \<Rightarrow> 'a \<Rightarrow> 'a \<Rightarrow> 'a graph" where
  "contract G u v1 v2 =
     drop_node u (if v1 \<noteq> v2 \<and> \<not> has_edge G v1 v2 then add_edge v1 v2 G else G)"

text \<open>The graph object that a call of the reducer returns, when it returns one.\<close>

definition result_graph :: "(error + nat \<times> 'a store) option \<Rightarrow> 'a graph option" where
  "result_graph r = (case r of Some (Inr (q, s')) \<Rightarrow> Some (s' ! q) | _ \<Rightarrow> None)"

section \<open>The classifier\<close>

text \<open>\<open>is_complete_graph_custom\<close>: an empty graph is complete; otherwise every node
  must have the degree \<open>number_of_nodes - 1\<close>.\<close>

definition is_complete_graph_custom :: "'a graph \<Rightarrow> bool" where
  "is_complete_graph_custom G =
     (if number_of_nodes G = 0 then True
      else list_all (\<lambda>n. degree G n = number_of_nodes G - 1) (nodes G))"

text \<open>
  \<open>get_kuratowski_type\<close>. The two library calls are parameters: \<open>is_bipartite\<close> stands
  for \<open>nx.is_bipartite\<close> and \<open>bipartite_sets\<close> for \<open>nx.bipartite.sets\<close>, whose result is
  \<open>None\<close> when the call raises (the \<open>try\<close> block then passes on to the next test).
\<close>

definition get_kuratowski_type ::
  "('a graph \<Rightarrow> bool) \<Rightarrow> ('a graph \<Rightarrow> ('a set \<times> 'a set) option) \<Rightarrow> 'a graph \<Rightarrow> string" where
  "get_kuratowski_type is_bipartite bipartite_sets graph =
     (let num_nodes = number_of_nodes graph in
      if num_nodes = 5 \<and> is_complete_graph_custom graph then ''K_5''
      else
        (case (if num_nodes = 6 \<and> is_bipartite graph
               then (case bipartite_sets graph of
                       Some (p1, p2) \<Rightarrow>
                         if card p1 = 3 \<and> card p2 = 3 then Some ''K_3,3'' else None
                     | None \<Rightarrow> None)
               else None) of
           Some r \<Rightarrow> r
         | None \<Rightarrow>
             if num_nodes \<ge> 5 \<and> is_complete_graph_custom graph then ''K_5 Subdivision''
             else if num_nodes \<ge> 6 \<and> is_bipartite graph then ''K_3,3 Subdivision''
             else ''Kuratowski Minor''))"

text \<open>
  The classification as the specification words it: a list of rules in priority order,
  each a condition with its label, the first rule whose condition holds giving the
  label, and \<open>UnresolvedMinor\<close> when none holds. The conditions are stated on the graph
  itself: the number of its nodes, completeness as the specification defines it (every
  node has as many incident edges as there are other nodes, which an empty graph
  satisfies), the bipartiteness test, and the two classes of the bipartition, present
  only when the library returns them.
\<close>

datatype label = K5 | K33 | K5_Subdivision | K33_Subdivision | UnresolvedMinor

fun label_text :: "label \<Rightarrow> string" where
  "label_text K5 = ''K_5''"
| "label_text K33 = ''K_3,3''"
| "label_text K5_Subdivision = ''K_5 Subdivision''"
| "label_text K33_Subdivision = ''K_3,3 Subdivision''"
| "label_text UnresolvedMinor = ''Kuratowski Minor''"

definition node_count :: "'a graph \<Rightarrow> nat" where
  "node_count G = length (nodes G)"

definition complete_spec :: "'a graph \<Rightarrow> bool" where
  "complete_spec G = (\<forall>n \<in> set (nodes G). degree G n = node_count G - 1)"

definition classes_3_3 :: "('a graph \<Rightarrow> ('a set \<times> 'a set) option) \<Rightarrow> 'a graph \<Rightarrow> bool" where
  "classes_3_3 bipartite_sets G =
     (\<exists>p1 p2. bipartite_sets G = Some (p1, p2) \<and> card p1 = 3 \<and> card p2 = 3)"

definition spec_rules ::
  "('a graph \<Rightarrow> bool) \<Rightarrow> ('a graph \<Rightarrow> ('a set \<times> 'a set) option) \<Rightarrow>
   (('a graph \<Rightarrow> bool) \<times> label) list" where
  "spec_rules is_bipartite bipartite_sets =
     [(\<lambda>G. node_count G = 5 \<and> complete_spec G, K5),
      (\<lambda>G. node_count G = 6 \<and> is_bipartite G \<and> classes_3_3 bipartite_sets G, K33),
      (\<lambda>G. node_count G \<ge> 5 \<and> complete_spec G, K5_Subdivision),
      (\<lambda>G. node_count G \<ge> 6 \<and> is_bipartite G, K33_Subdivision)]"

fun first_match :: "(('a graph \<Rightarrow> bool) \<times> label) list \<Rightarrow> 'a graph \<Rightarrow> label" where
  "first_match [] G = UnresolvedMinor"
| "first_match ((c, l) # rs) G = (if c G then l else first_match rs G)"

section \<open>Example graphs\<close>

definition triangle :: "nat graph" where
  "triangle = add_edges_from [(0, 1), (1, 2), (2, 0)] empty_graph"

text \<open>A cycle on four nodes.\<close>

definition square :: "nat graph" where
  "square = add_edges_from [(0, 1), (1, 2), (2, 3), (3, 0)] empty_graph"

text \<open>
  The complete graph on the nodes 0 to 4 with the edge between 0 and 1 replaced by a
  path through the new node 5.
\<close>

definition k5_subdivided :: "nat graph" where
  "k5_subdivided =
     add_edges_from
       [(0, 5), (5, 1), (0, 2), (0, 3), (0, 4), (1, 2), (1, 3), (1, 4), (2, 3), (2, 4), (3, 4)]
       empty_graph"

section \<open>The renderer\<close>

text \<open>
  Coordinates are floating-point numbers of the interpreter. Their type is the
  parameter \<open>'c\<close>, and the operations the renderer applies to them are the fields of a
  record that every function of the renderer receives: the comparisons \<open>a < b\<close> and
  \<open>a != b\<close>, subtraction, addition and multiplication, and the numbers the literals
  \<open>0\<close>, \<open>1.0\<close>, \<open>2\<close> and \<open>0.12\<close> denote. Nothing is assumed of them: what is proved of
  the renderer holds whatever the arithmetic rounds to, overflows to or compares as.
\<close>

record 'c arith =
  f_lt :: "'c \<Rightarrow> 'c \<Rightarrow> bool"
  f_neq :: "'c \<Rightarrow> 'c \<Rightarrow> bool"
  f_sub :: "'c \<Rightarrow> 'c \<Rightarrow> 'c"
  f_add :: "'c \<Rightarrow> 'c \<Rightarrow> 'c"
  f_mul :: "'c \<Rightarrow> 'c \<Rightarrow> 'c"
  f_zero :: 'c
  f_one :: 'c
  f_two :: 'c
  f_012 :: 'c

text \<open>
  A position map is a dictionary from nodes to coordinate pairs, kept as the list of
  its items in insertion order.
\<close>

type_synonym ('a, 'c) pos = "('a \<times> 'c \<times> 'c) list"

text \<open>\<open>n in pos\<close> and \<open>pos[n]\<close>, which raises \<open>KeyError\<close> for an unknown key.\<close>

definition pos_has :: "('a, 'c) pos \<Rightarrow> 'a \<Rightarrow> bool" where
  "pos_has pos n = (map_of pos n \<noteq> None)"

definition pos_get :: "('a, 'c) pos \<Rightarrow> 'a \<Rightarrow> error + 'c \<times> 'c" where
  "pos_get pos n = (case map_of pos n of None \<Rightarrow> Inl KeyError | Some xy \<Rightarrow> Inr xy)"

text \<open>
  The built-in \<open>min\<close> and \<open>max\<close> of a list: the first element is kept until a later
  one is smaller (for \<open>max\<close>: larger); an empty list raises \<open>ValueError\<close>. The built-in
  \<open>max\<close> of two arguments keeps the first unless the second is larger.
\<close>

definition py_min :: "'c arith \<Rightarrow> 'c list \<Rightarrow> error + 'c" where
  "py_min A xs =
     (case xs of
        [] \<Rightarrow> Inl ValueError
      | x # r \<Rightarrow> Inr (fold (\<lambda>y m. if f_lt A y m then y else m) r x))"

definition py_max :: "'c arith \<Rightarrow> 'c list \<Rightarrow> error + 'c" where
  "py_max A xs =
     (case xs of
        [] \<Rightarrow> Inl ValueError
      | x # r \<Rightarrow> Inr (fold (\<lambda>y m. if f_lt A m y then y else m) r x))"

definition py_max2 :: "'c arith \<Rightarrow> 'c \<Rightarrow> 'c \<Rightarrow> 'c" where
  "py_max2 A a b = (if f_lt A a b then b else a)"

text \<open>\<open>_normalize_positions\<close>: the smallest coordinates and the two spans, a span
  replaced by \<open>1.0\<close> when the largest and the smallest coordinate compare equal.\<close>

definition normalize_positions :: "'c arith \<Rightarrow> ('a, 'c) pos \<Rightarrow> error + 'c \<times> 'c \<times> 'c \<times> 'c" where
  "normalize_positions A pos =
     (let xs = (if pos \<noteq> [] then map (\<lambda>(x, y). x) (map snd pos) else [f_zero A]);
          ys = (if pos \<noteq> [] then map (\<lambda>(x, y). y) (map snd pos) else [f_zero A])
      in case py_min A xs of Inl e \<Rightarrow> Inl e | Inr min_x \<Rightarrow>
         (case py_max A xs of Inl e \<Rightarrow> Inl e | Inr max_x \<Rightarrow>
         (case py_min A ys of Inl e \<Rightarrow> Inl e | Inr min_y \<Rightarrow>
         (case py_max A ys of Inl e \<Rightarrow> Inl e | Inr max_y \<Rightarrow>
            (let width = (if f_neq A max_x min_x then f_sub A max_x min_x else f_one A);
                 height = (if f_neq A max_y min_y then f_sub A max_y min_y else f_one A)
             in Inr (min_x, min_y, width, height))))))"

text \<open>\<open>tuple(sorted((u, v)))\<close> for two nodes of one linearly ordered type.\<close>

definition sort_pair :: "'a::linorder \<times> 'a \<Rightarrow> 'a \<times> 'a" where
  "sort_pair e = (case e of (u, v) \<Rightarrow> if v < u then (v, u) else (u, v))"

text \<open>The dictionary \<open>node_style\<close>: each of its six keys may be absent. The radius is a
  whole number of pixels.\<close>

record node_style =
  style_r :: "int option"
  style_fill :: "string option"
  style_stroke :: "string option"
  style_edge_color :: "string option"
  style_label :: "string option"
  style_highlight_color :: "string option"

text \<open>\<open>d.get(key, default)\<close> on a field of the style dictionary.\<close>

definition get_or :: "'b option \<Rightarrow> 'b \<Rightarrow> 'b" where
  "get_or v d = (case v of Some x \<Rightarrow> x | None \<Rightarrow> d)"

definition empty_style :: node_style where
  "empty_style = \<lparr>style_r = None, style_fill = None, style_stroke = None,
     style_edge_color = None, style_label = None, style_highlight_color = None\<rparr>"

text \<open>\<open>html.escape\<close> with its default \<open>quote=True\<close>.\<close>

definition escape_char :: "char \<Rightarrow> string" where
  "escape_char c =
     (if c = CHR ''&'' then ''&amp;''
      else if c = CHR ''<'' then ''&lt;''
      else if c = CHR ''>'' then ''&gt;''
      else if c = CHR 0x22 then ''&quot;''
      else if c = CHR 0x27 then ''&#x27;''
      else [c])"

definition html_escape :: "string \<Rightarrow> string" where
  "html_escape s = concat (map escape_char s)"

text \<open>
  The lines of the SVG text, one constructor for each kind the renderer appends. A line
  element and the two elements of a node carry, as their first arguments, the nodes
  they are drawn for; the SVG text itself holds the coordinates only. The other
  arguments are the values printed into the element: for \<open>SvgOpen\<close> the four numbers of
  the \<open>viewBox\<close> and the pixel width and height, for \<open>Line\<close> the two end points, the
  stroke colour, the stroke width and the opacity as it is written in the text, for
  \<open>Circle\<close> the centre, the radius, the fill and the stroke, for \<open>Text\<close> the position,
  the font size, the fill and the escaped label.
\<close>

datatype ('a, 'c) part =
    XmlDecl
  | SvgOpen 'c 'c 'c 'c nat nat
  | Title string
  | Line 'a 'a 'c 'c 'c 'c string nat string
  | Circle 'a 'c 'c int string string
  | Text 'a 'c 'c int string string
  | SvgClose

text \<open>The first loop: the edges of the graph that are not highlighted.\<close>

fun draw_edges ::
  "('a::linorder, 'c) pos \<Rightarrow> ('a \<times> 'a) list \<Rightarrow> string \<Rightarrow> ('a \<times> 'a) list \<Rightarrow>
   error + ('a, 'c) part list" where
  "draw_edges pos hl edge_color [] = Inr []"
| "draw_edges pos hl edge_color ((u, v) # es) =
     (if \<not> pos_has pos u \<or> \<not> pos_has pos v then draw_edges pos hl edge_color es
      else
        (case pos_get pos u of
           Inl e \<Rightarrow> Inl e
         | Inr (x1, y1) \<Rightarrow>
             (case pos_get pos v of
                Inl e \<Rightarrow> Inl e
              | Inr (x2, y2) \<Rightarrow>
                  if sort_pair (u, v) \<in> set hl then draw_edges pos hl edge_color es
                  else map_sum id (Cons (Line u v x1 y1 x2 y2 edge_color 2 ''0.75''))
                         (draw_edges pos hl edge_color es))))"

text \<open>The second loop: every pair of the highlight set.\<close>

fun draw_highlights ::
  "('a, 'c) pos \<Rightarrow> string \<Rightarrow> ('a \<times> 'a) list \<Rightarrow> error + ('a, 'c) part list" where
  "draw_highlights pos highlight_color [] = Inr []"
| "draw_highlights pos highlight_color ((u, v) # es) =
     (if \<not> pos_has pos u \<or> \<not> pos_has pos v then draw_highlights pos highlight_color es
      else
        (case pos_get pos u of
           Inl e \<Rightarrow> Inl e
         | Inr (x1, y1) \<Rightarrow>
             (case pos_get pos v of
                Inl e \<Rightarrow> Inl e
              | Inr (x2, y2) \<Rightarrow>
                  map_sum id (Cons (Line u v x1 y1 x2 y2 highlight_color 4 ''0.95''))
                    (draw_highlights pos highlight_color es))))"

text \<open>The third loop: a circle and a label for each node; \<open>str_of\<close> is \<open>str\<close> on nodes.\<close>

fun draw_nodes ::
  "('a \<Rightarrow> string) \<Rightarrow> ('a, 'c) pos \<Rightarrow> int \<Rightarrow> string \<Rightarrow> string \<Rightarrow> string \<Rightarrow> 'a list \<Rightarrow>
   error + ('a, 'c) part list" where
  "draw_nodes str_of pos node_radius node_color node_stroke label_color [] = Inr []"
| "draw_nodes str_of pos node_radius node_color node_stroke label_color (n # ns) =
     (if \<not> pos_has pos n
      then draw_nodes str_of pos node_radius node_color node_stroke label_color ns
      else
        (case pos_get pos n of
           Inl e \<Rightarrow> Inl e
         | Inr (x, y) \<Rightarrow>
             map_sum id
               (\<lambda>ps. Circle n x y node_radius node_color node_stroke
                     # Text n x y (max 10 node_radius) label_color (html_escape (str_of n))
                     # ps)
               (draw_nodes str_of pos node_radius node_color node_stroke label_color ns)))"

text \<open>
  \<open>graph_to_svg\<close>. The highlight set is the list of its sorted pairs without
  repetition; the order in which the interpreter iterates over a set is not modelled.
  The result is the list of the lines that the program joins into the SVG text.
\<close>

definition graph_to_svg ::
  "'c arith \<Rightarrow> ('a \<Rightarrow> string) \<Rightarrow> 'a::linorder graph \<Rightarrow> ('a, 'c) pos \<Rightarrow>
   ('a \<times> 'a) list option \<Rightarrow> string option \<Rightarrow> nat \<Rightarrow> nat \<Rightarrow> node_style option \<Rightarrow>
   error + ('a, 'c) part list" where
  "graph_to_svg A str_of G pos highlight_edges title width_px height_px node_style =
     (let hl = (case highlight_edges of None \<Rightarrow> [] | Some es \<Rightarrow> remdups (map sort_pair es));
          st = get_or node_style empty_style;
          node_radius = get_or (style_r st) 18;
          node_color = get_or (style_fill st) ''#76c7ff'';
          node_stroke = get_or (style_stroke st) ''#1f6feb'';
          edge_color = get_or (style_edge_color st) ''#444'';
          label_color = get_or (style_label st) ''#ffffff'';
          highlight_color = get_or (style_highlight_color st) ''#e63946''
      in case normalize_positions A pos of
           Inl e \<Rightarrow> Inl e
         | Inr (min_x, min_y, w, h) \<Rightarrow>
             (let padding = f_mul A (py_max2 A w h) (f_012 A);
                  vb_min_x = f_sub A min_x padding;
                  vb_min_y = f_sub A min_y padding;
                  vb_w = f_add A w (f_mul A (f_two A) padding);
                  vb_h = f_add A h (f_mul A (f_two A) padding);
                  head = [XmlDecl, SvgOpen vb_min_x vb_min_y vb_w vb_h width_px height_px];
                  title_part = (case title of
                                  None \<Rightarrow> []
                                | Some t \<Rightarrow> if t = [] then [] else [Title (html_escape t)])
              in case draw_edges pos hl edge_color (edges G) of
                   Inl e \<Rightarrow> Inl e
                 | Inr plain \<Rightarrow>
                     (case draw_highlights pos highlight_color hl of
                        Inl e \<Rightarrow> Inl e
                      | Inr bold \<Rightarrow>
                          (case draw_nodes str_of pos node_radius node_color node_stroke
                                  label_color (nodes G) of
                             Inl e \<Rightarrow> Inl e
                           | Inr circles \<Rightarrow>
                               Inr (head @ title_part @ plain @ bold @ circles
                                    @ [SvgClose])))))"

text \<open>What the theorems read off the rendered lines.\<close>

fun part_nodes :: "('a, 'c) part \<Rightarrow> 'a set" where
  "part_nodes (Line u v x1 y1 x2 y2 c w opa) = {u, v}"
| "part_nodes (Circle n x y r f s) = {n}"
| "part_nodes (Text n x y fs f l) = {n}"
| "part_nodes _ = {}"

text \<open>The edges drawn as lines of the given stroke width, in the order of the text.\<close>

fun lines_of :: "nat \<Rightarrow> ('a, 'c) part list \<Rightarrow> ('a \<times> 'a) list" where
  "lines_of k [] = []"
| "lines_of k (Line u v x1 y1 x2 y2 c w opa # ps) =
     (if w = k then (u, v) # lines_of k ps else lines_of k ps)"
| "lines_of k (_ # ps) = lines_of k ps"

text \<open>The elements the loops append, with the coordinates looked up.\<close>

definition positioned :: "('a, 'c) pos \<Rightarrow> 'a \<times> 'a \<Rightarrow> bool" where
  "positioned pos e = (pos_has pos (fst e) \<and> pos_has pos (snd e))"

definition line_for ::
  "('a, 'c) pos \<Rightarrow> string \<Rightarrow> nat \<Rightarrow> string \<Rightarrow> 'a \<times> 'a \<Rightarrow> ('a, 'c) part" where
  "line_for pos c w opa e =
     Line (fst e) (snd e)
       (fst (the (map_of pos (fst e)))) (snd (the (map_of pos (fst e))))
       (fst (the (map_of pos (snd e)))) (snd (the (map_of pos (snd e)))) c w opa"

definition node_parts ::
  "('a \<Rightarrow> string) \<Rightarrow> ('a, 'c) pos \<Rightarrow> int \<Rightarrow> string \<Rightarrow> string \<Rightarrow> string \<Rightarrow> 'a \<Rightarrow>
   ('a, 'c) part list" where
  "node_parts str_of pos r fill stroke label n =
     [Circle n (fst (the (map_of pos n))) (snd (the (map_of pos n))) r fill stroke,
      Text n (fst (the (map_of pos n))) (snd (the (map_of pos n))) (max 10 r) label
        (html_escape (str_of n))]"

text \<open>The highlight set after normalisation.\<close>

definition normalized_highlights :: "('a::linorder \<times> 'a) list option \<Rightarrow> ('a \<times> 'a) list" where
  "normalized_highlights highlight_edges =
     (case highlight_edges of None \<Rightarrow> [] | Some es \<Rightarrow> remdups (map sort_pair es))"

definition title_parts :: "string option \<Rightarrow> ('a, 'c) part list" where
  "title_parts title =
     (case title of None \<Rightarrow> [] | Some t \<Rightarrow> if t = [] then [] else [Title (html_escape t)])"

text \<open>\<open>str\<close> on the one-digit node numbers of the examples.\<close>

definition str_digit :: "nat \<Rightarrow> string" where
  "str_digit n = [char_of (48 + n)]"

text \<open>
  The examples need an arithmetic to run with: exact arithmetic on real numbers. It is
  not the arithmetic of the interpreter; the examples read the lines and the nodes of
  the rendered text and never a number that the arithmetic computes.
\<close>

definition example_arith :: "real arith" where
  "example_arith =
     \<lparr>f_lt = (\<lambda>a b. a < b), f_neq = (\<lambda>a b. a \<noteq> b), f_sub = (\<lambda>a b. a - b),
      f_add = (\<lambda>a b. a + b), f_mul = (\<lambda>a b. a * b),
      f_zero = 0, f_one = 1, f_two = 2, f_012 = 0.12\<rparr>"

text \<open>A path on three nodes and positions for its nodes.\<close>

definition path3 :: "nat graph" where
  "path3 = add_edges_from [(0, 1), (1, 2)] empty_graph"

definition pos3 :: "(nat, real) pos" where
  "pos3 = [(0, (0, 0)), (1, (1, 0)), (2, (1, 1))]"

section \<open>The drawing of the entry point that plots with the library\<close>

text \<open>
  The entry point \<open>src/app.py\<close> draws with the plotting functions of the graph library.
  Its first drawing statement is \<open>nx.draw_networkx_edges(G, pos, ...)\<close>, which, for a
  non-empty list of edges (the edges of the graph when none is given), builds
  \<open>[(pos[e[0]], pos[e[1]]) for e in edgelist]\<close>: a node without a position raises
  \<open>KeyError\<close>. Only these look-ups are modelled; \<open>'p\<close> is
  the type of a position.
\<close>

fun lookup_positions :: "('a \<times> 'p) list \<Rightarrow> 'a list \<Rightarrow> error + 'p list" where
  "lookup_positions pos [] = Inr []"
| "lookup_positions pos (n # ns) =
     (case map_of pos n of
        None \<Rightarrow> Inl KeyError
      | Some p \<Rightarrow> map_sum id (Cons p) (lookup_positions pos ns))"

definition draw_networkx_edges ::
  "'a graph \<Rightarrow> ('a \<times> 'p) list \<Rightarrow> ('a \<times> 'a) list option \<Rightarrow> error + 'p list" where
  "draw_networkx_edges G pos edgelist =
     (let es = (case edgelist of None \<Rightarrow> edges G | Some l \<Rightarrow> l)
      in if es = [] then Inr []
         else lookup_positions pos (concat (map (\<lambda>e. [fst e, snd e]) es)))"

text \<open>Positions for the first two nodes of the path only.\<close>

definition pos2 :: "(nat, real) pos" where
  "pos2 = [(0, (0, 0)), (1, (1, 0))]"

text \<open>The complete graph on five nodes and the complete bipartite graph on three and
  three nodes.\<close>

definition k5_graph :: "nat graph" where
  "k5_graph =
     add_edges_from
       [(0, 1), (0, 2), (0, 3), (0, 4), (1, 2), (1, 3), (1, 4), (2, 3), (2, 4), (3, 4)]
       empty_graph"

definition k33_graph :: "nat graph" where
  "k33_graph =
     add_edges_from
       [(0, 3), (0, 4), (0, 5), (1, 3), (1, 4), (1, 5), (2, 3), (2, 4), (2, 5)]
       empty_graph"

section \<open>The request: construction of the graph, the payload and the endpoint\<close>

text \<open>The two statements of \<open>visualize_planarity_test\<close> that build the graph from the
  edge list: \<open>G = nx.Graph()\<close> and \<open>G.add_edges_from(edges)\<close>.\<close>

definition build_graph :: "('a \<times> 'a) list \<Rightarrow> 'a graph" where
  "build_graph es = add_edges_from es empty_graph"

text \<open>
  The parsed JSON payload. An object is the list of the items of its dictionary: its
  keys are distinct. A number is an integer or a floating-point number, as the parser
  of the interpreter reads it; \<open>'c\<close> is the type of the floating-point numbers.
\<close>

datatype 'c json =
    JNull
  | JBool bool
  | JInt int
  | JFloat 'c
  | JStr string
  | JArr "'c json list"
  | JObj "(string \<times> 'c json) list"

text \<open>
  What the interpreter does with numbers and keys is a parameter of the model: the
  conversion of an integer to a floating-point number (\<open>None\<close> when it overflows), the
  reading of a floating-point number from a string (\<open>None\<close> when the string is not a
  number), whether a floating-point number is nonzero, and whether two values are the
  same dictionary key.
\<close>

record 'c conv =
  float_of_int :: "int \<Rightarrow> 'c option"
  float_of_str :: "string \<Rightarrow> 'c option"
  float_nonzero :: "'c \<Rightarrow> bool"
  same_key :: "'c json \<Rightarrow> 'c json \<Rightarrow> bool"

text \<open>
  The exceptions raised while the payload is read. A \<open>KeyError\<close> carries the missing
  key, which is its message; the message texts of the others are the interpreter's and
  are not modelled.
\<close>

datatype exc = KeyErr string | TypeErr | ValueErr | OverflowErr

definition bind_exc :: "exc + 'b \<Rightarrow> ('b \<Rightarrow> exc + 'd) \<Rightarrow> exc + 'd" where
  "bind_exc m f = (case m of Inl e \<Rightarrow> Inl e | Inr x \<Rightarrow> f x)"

text \<open>\<open>v[key]\<close> for a string key: only a dictionary can be subscripted with a string.\<close>

definition subscript :: "'c json \<Rightarrow> string \<Rightarrow> exc + 'c json" where
  "subscript v key =
     (case v of
        JObj kvs \<Rightarrow> (case map_of kvs key of Some x \<Rightarrow> Inr x | None \<Rightarrow> Inl (KeyErr key))
      | _ \<Rightarrow> Inl TypeErr)"

text \<open>\<open>for e in v\<close>: a list gives its elements, a dictionary its keys, a string its
  characters; nothing else can be iterated.\<close>

definition iterate :: "'c json \<Rightarrow> exc + 'c json list" where
  "iterate v =
     (case v of
        JArr xs \<Rightarrow> Inr xs
      | JObj kvs \<Rightarrow> Inr (map (\<lambda>kv. JStr (fst kv)) kvs)
      | JStr s \<Rightarrow> Inr (map (\<lambda>c. JStr [c]) s)
      | _ \<Rightarrow> Inl TypeErr)"

text \<open>\<open>float(v)\<close>: a Boolean counts as the integer 1 or 0.\<close>

definition py_float :: "'c conv \<Rightarrow> 'c json \<Rightarrow> exc + 'c" where
  "py_float C v =
     (case v of
        JFloat c \<Rightarrow> Inr c
      | JInt i \<Rightarrow> (case float_of_int C i of Some c \<Rightarrow> Inr c | None \<Rightarrow> Inl OverflowErr)
      | JBool b \<Rightarrow>
          (case float_of_int C (if b then 1 else 0) of
             Some c \<Rightarrow> Inr c
           | None \<Rightarrow> Inl OverflowErr)
      | JStr s \<Rightarrow> (case float_of_str C s of Some c \<Rightarrow> Inr c | None \<Rightarrow> Inl ValueErr)
      | _ \<Rightarrow> Inl TypeErr)"

text \<open>A list or a dictionary cannot be the key of a dictionary.\<close>

definition hashable :: "'c json \<Rightarrow> bool" where
  "hashable v = (case v of JArr xs \<Rightarrow> False | JObj kvs \<Rightarrow> False | _ \<Rightarrow> True)"

text \<open>\<open>d[k] = v\<close> on the items of a dictionary: a known key keeps its place and stays
  the key, a new key goes to the end.\<close>

fun dict_set :: "('k \<Rightarrow> 'k \<Rightarrow> bool) \<Rightarrow> 'k \<Rightarrow> 'v \<Rightarrow> ('k \<times> 'v) list \<Rightarrow> ('k \<times> 'v) list" where
  "dict_set eq k v [] = [(k, v)]"
| "dict_set eq k v ((k', v') # d) =
     (if eq k' k then (k', v) # d else (k', v') # dict_set eq k v d)"

text \<open>The list comprehension that reads the edges.\<close>

fun read_edges :: "'c json list \<Rightarrow> exc + ('c json \<times> 'c json) list" where
  "read_edges [] = Inr []"
| "read_edges (e # es) =
     bind_exc (subscript e ''source'') (\<lambda>s.
     bind_exc (subscript e ''target'') (\<lambda>t.
     bind_exc (read_edges es) (\<lambda>rest. Inr ((s, t) # rest))))"

text \<open>The dictionary comprehension that reads the positions: for each node object the
  key, then the two coordinates, then the entry is stored.\<close>

fun read_pos ::
  "'c conv \<Rightarrow> ('c json \<times> 'c \<times> 'c) list \<Rightarrow> 'c json list \<Rightarrow>
   exc + ('c json \<times> 'c \<times> 'c) list" where
  "read_pos C d [] = Inr d"
| "read_pos C d (n # ns) =
     bind_exc (subscript n ''id'') (\<lambda>k.
     bind_exc (bind_exc (subscript n ''x'') (py_float C)) (\<lambda>x.
     bind_exc (bind_exc (subscript n ''y'') (py_float C)) (\<lambda>y.
       if hashable k then read_pos C (dict_set (same_key C) k (x, y) d) ns
       else Inl TypeErr)))"

text \<open>The body of the \<open>try\<close> block of \<open>visualize_planarity_test\<close> (SVG entry point).\<close>

definition parse_graph_data ::
  "'c conv \<Rightarrow> 'c json \<Rightarrow>
   exc + ('c json \<times> 'c json) list \<times> ('c json \<times> 'c \<times> 'c) list" where
  "parse_graph_data C graph_data =
     bind_exc (bind_exc (bind_exc (subscript graph_data ''edges'') iterate) read_edges) (\<lambda>es.
     bind_exc (bind_exc (bind_exc (subscript graph_data ''nodes'') iterate)
                 (read_pos C [])) (\<lambda>pos.
     Inr (es, pos)))"

text \<open>\<open>str(e)\<close> for the exception caught.\<close>

fun exc_text :: "exc \<Rightarrow> string" where
  "exc_text (KeyErr k) = [CHR 0x27] @ k @ [CHR 0x27]"
| "exc_text TypeErr = ''TypeError''"
| "exc_text ValueErr = ''ValueError''"
| "exc_text OverflowErr = ''OverflowError''"

text \<open>
  The six values \<open>visualize_planarity_test\<close> returns: the three images, the title, the
  type and the edges of the subdivision, each of which can be \<open>None\<close>.
\<close>

type_synonym ('i, 'e) outcome =
  "'i option \<times> 'i option \<times> 'i option \<times> string option \<times> string option \<times> 'e list option"

text \<open>
  \<open>visualize_planarity_test\<close> of the SVG entry point. The statements after the \<open>try\<close>
  block are the parameter \<open>rest\<close>: they receive the edges and the positions read and
  are not reached when reading fails.
\<close>

definition visualize_planarity_test ::
  "'c conv \<Rightarrow>
   (('c json \<times> 'c json) list \<Rightarrow> ('c json \<times> 'c \<times> 'c) list \<Rightarrow> ('i, 'e) outcome) \<Rightarrow>
   'c json \<Rightarrow> ('i, 'e) outcome" where
  "visualize_planarity_test C rest graph_data =
     (case parse_graph_data C graph_data of
        Inl e \<Rightarrow> (None, None, None, None, Some (''Data parsing error: '' @ exc_text e), None)
      | Inr (es, pos) \<Rightarrow> rest es pos)"

text \<open>The truth value of a payload and the test \<open>key in data\<close>.\<close>

definition truthy :: "'c conv \<Rightarrow> 'c json \<Rightarrow> bool" where
  "truthy C v =
     (case v of
        JNull \<Rightarrow> False
      | JBool b \<Rightarrow> b
      | JInt i \<Rightarrow> i \<noteq> 0
      | JFloat c \<Rightarrow> float_nonzero C c
      | JStr s \<Rightarrow> s \<noteq> []
      | JArr xs \<Rightarrow> xs \<noteq> []
      | JObj kvs \<Rightarrow> kvs \<noteq> [])"

fun is_infix :: "string \<Rightarrow> string \<Rightarrow> bool" where
  "is_infix k [] = (k = [])"
| "is_infix k (c # cs) = (take (length k) (c # cs) = k \<or> is_infix k cs)"

definition contains_key :: "string \<Rightarrow> 'c json \<Rightarrow> exc + bool" where
  "contains_key key v =
     (case v of
        JObj kvs \<Rightarrow> Inr (key \<in> fst ` set kvs)
      | JArr xs \<Rightarrow> Inr (JStr key \<in> set xs)
      | JStr s \<Rightarrow> Inr (is_infix key s)
      | _ \<Rightarrow> Inl TypeErr)"

text \<open>
  The response of the endpoint: the JSON body with the status code. An error body has
  the one field \<open>error\<close>, which is \<open>null\<close> when the value given is \<open>None\<close>. A success
  body has the title, the planarity flag, the type, the edges of the subdivision and the
  three images, which stand for their base64 texts.
\<close>

datatype ('i, 'e) response =
    ErrorBody "string option" nat
  | SuccessBody "string option" bool "string option" "'e list" 'i "'i option" "'i option" nat

text \<open>
  \<open>planarity_api\<close> of the SVG entry point, applied to the parsed payload. An exception
  that the function does not catch is the left result.
\<close>

definition planarity_api ::
  "'c conv \<Rightarrow>
   (('c json \<times> 'c json) list \<Rightarrow> ('c json \<times> 'c \<times> 'c) list \<Rightarrow> ('i, 'e) outcome) \<Rightarrow>
   'c json \<Rightarrow> exc + ('i, 'e) response" where
  "planarity_api C rest data =
     (if \<not> truthy C data
      then Inr (ErrorBody
             (Some ''Invalid input format. Expected JSON with 'nodes' and 'edges'.'') 400)
      else bind_exc (contains_key ''nodes'' data) (\<lambda>has_nodes.
        if \<not> has_nodes
        then Inr (ErrorBody
               (Some ''Invalid input format. Expected JSON with 'nodes' and 'edges'.'') 400)
        else bind_exc (contains_key ''edges'' data) (\<lambda>has_edges.
          if \<not> has_edges
          then Inr (ErrorBody
                 (Some ''Invalid input format. Expected JSON with 'nodes' and 'edges'.'') 400)
          else
            (case visualize_planarity_test C rest data of
               (svg_original_b, svg_sub_b, svg_minor_b, result_title, kuratowski_type,
                kuratowski_edges) \<Rightarrow>
                 (case svg_original_b of
                    None \<Rightarrow> Inr (ErrorBody result_title 400)
                  | Some image_original \<Rightarrow>
                      (case kuratowski_edges of
                         None \<Rightarrow> Inl TypeErr
                       | Some es \<Rightarrow>
                           Inr (SuccessBody result_title (svg_sub_b = None) kuratowski_type es
                                  image_original svg_sub_b svg_minor_b 200)))))))"

text \<open>A payload whose one node object has no coordinates.\<close>

definition payload_without_x :: "'c json" where
  "payload_without_x =
     JObj [(''nodes'', JArr [JObj [(''id'', JStr ''A'')]]), (''edges'', JArr [])]"

section \<open>Properties of the graph operations\<close>

lemma add_edge_known_nodes:
  assumes "u \<in> set (nodes G)" "v \<in> set (nodes G)"
  shows "nodes (add_edge u v G) = nodes G"
  using assms by (simp add: add_edge_def put_nbr_def add_node_def)

lemma add_edge_new_adj:
  assumes "u \<in> set (nodes G)" "v \<in> set (nodes G)" "u \<noteq> v"
    "v \<notin> set (adj G u)" "u \<notin> set (adj G v)"
  shows "adj (add_edge u v G) = (adj G)(u := adj G u @ [v], v := adj G v @ [u])"
  using assms by (simp add: add_edge_def put_nbr_def add_node_def)

lemma nbrs_facts:
  assumes wf: "wf_graph G" and nl: "no_self_loops G" and u: "u \<in> set (nodes G)"
    and a: "adj G u = [v1, v2]"
  shows "v1 \<noteq> v2" "v1 \<noteq> u" "v2 \<noteq> u" "v1 \<in> set (nodes G)" "v2 \<in> set (nodes G)"
    "u \<in> set (adj G v1)" "u \<in> set (adj G v2)"
proof -
  have d: "distinct (adj G u)" and m: "\<forall>v \<in> set (adj G u). v \<in> set (nodes G) \<and> u \<in> set (adj G v)"
    using wf u unfolding wf_graph_def by blast+
  have n: "u \<notin> set (adj G u)" using nl u unfolding no_self_loops_def by blast
  show "v1 \<noteq> v2" using d a by simp
  show "v1 \<noteq> u" using n a by auto
  show "v2 \<noteq> u" using n a by auto
  show "v1 \<in> set (nodes G)" using m a by simp
  show "v2 \<in> set (nodes G)" using m a by simp
  show "u \<in> set (adj G v1)" using m a by simp
  show "u \<in> set (adj G v2)" using m a by simp
qed


lemma contract_nodes:
  assumes wf: "wf_graph G" and nl: "no_self_loops G" and u: "u \<in> set (nodes G)"
    and a: "adj G u = [v1, v2]"
  shows "nodes (contract G u v1 v2) = removeAll u (nodes G)"
  using nbrs_facts[OF assms]
  by (simp add: contract_def drop_node_def add_edge_known_nodes)

lemma contract_adj:
  assumes wf: "wf_graph G" and nl: "no_self_loops G" and u: "u \<in> set (nodes G)"
    and a: "adj G u = [v1, v2]"
  shows "adj (contract G u v1 v2) =
     (\<lambda>m. if m = u then []
      else if m = v1 then removeAll u (if v2 \<in> set (adj G v1) then adj G v1 else adj G v1 @ [v2])
      else if m = v2 then removeAll u (if v1 \<in> set (adj G v2) then adj G v2 else adj G v2 @ [v1])
      else adj G m)"
proof -
  note f = nbrs_facts[OF assms]
  have sym: "v2 \<in> set (adj G v1) \<longleftrightarrow> v1 \<in> set (adj G v2)"
    using wf f unfolding wf_graph_def by blast
  show ?thesis
  proof (cases "v2 \<in> set (adj G v1)")
    case True
    then have "contract G u v1 v2 = drop_node u G"
      using f by (simp add: contract_def has_edge_def)
    then show ?thesis using True sym f a
      by (auto simp: drop_node_def fun_eq_iff)
  next
    case False
    then have c: "contract G u v1 v2 = drop_node u (add_edge v1 v2 G)"
      using f by (simp add: contract_def has_edge_def)
    have e: "adj (add_edge v1 v2 G) = (adj G)(v1 := adj G v1 @ [v2], v2 := adj G v2 @ [v1])"
      using add_edge_new_adj[of v1 G v2] f False sym by simp
    show ?thesis unfolding c using False sym f a
      by (auto simp: drop_node_def e fun_eq_iff)
  qed
qed

lemma wf_sym: "wf_graph G \<Longrightarrow> a \<in> set (nodes G) \<Longrightarrow> b \<in> set (adj G a) \<Longrightarrow>
   b \<in> set (nodes G) \<and> a \<in> set (adj G b)"
  unfolding wf_graph_def by blast

lemma wf_distinct: "wf_graph G \<Longrightarrow> a \<in> set (nodes G) \<Longrightarrow> distinct (adj G a)"
  unfolding wf_graph_def by blast

lemma wf_distinct_nodes: "wf_graph G \<Longrightarrow> distinct (nodes G)"
  unfolding wf_graph_def by blast

lemma only_nbrs:
  assumes wf: "wf_graph G" and a: "adj G u = [v1, v2]"
    and m: "m \<in> set (nodes G)" and um: "u \<in> set (adj G m)"
  shows "m = v1 \<or> m = v2"
proof -
  have "m \<in> set (adj G u)" using wf_sym[OF wf m um] by simp
  then show ?thesis using a by simp
qed

lemma contract_adj_set:
  assumes wf: "wf_graph G" and nl: "no_self_loops G" and u: "u \<in> set (nodes G)"
    and a: "adj G u = [v1, v2]" and m: "m \<in> set (nodes G)" "m \<noteq> u"
  shows "set (adj (contract G u v1 v2) m) =
     (set (adj G m) - {u}) \<union> (if m = v1 then {v2} else if m = v2 then {v1} else {})"
proof -
  note f = nbrs_facts[OF wf nl u a]
  note A = contract_adj[OF wf nl u a]
  consider "m = v1" | "m = v2" | "m \<noteq> v1" "m \<noteq> v2" by blast
  then show ?thesis
  proof cases
    case 1 then show ?thesis using f m by (auto simp: A)
  next
    case 2 then show ?thesis using f m by (auto simp: A)
  next
    case 3
    then have "u \<notin> set (adj G m)" using only_nbrs[OF wf a m(1)] by blast
    then show ?thesis using 3 m by (simp add: A)
  qed
qed

lemma contract_adj_distinct:
  assumes wf: "wf_graph G" and nl: "no_self_loops G" and u: "u \<in> set (nodes G)"
    and a: "adj G u = [v1, v2]" and m: "m \<in> set (nodes G)"
  shows "distinct (adj (contract G u v1 v2) m)"
  using wf_distinct[OF wf m] nbrs_facts(1-3)[OF wf nl u a]
  by (auto simp: contract_adj[OF wf nl u a] distinct_removeAll)


lemma contract_wf:
  assumes wf: "wf_graph G" and nl: "no_self_loops G" and u: "u \<in> set (nodes G)"
    and a: "adj G u = [v1, v2]"
  shows "wf_graph (contract G u v1 v2)"
proof -
  note f = nbrs_facts[OF assms]
  note N = contract_nodes[OF assms]
  note S = contract_adj_set[OF assms]
  show ?thesis unfolding wf_graph_def
  proof (intro conjI ballI)
    show "distinct (nodes (contract G u v1 v2))"
      using wf_distinct_nodes[OF wf] by (simp add: N distinct_removeAll)
  next
    fix m assume "m \<in> set (nodes (contract G u v1 v2))"
    then have m: "m \<in> set (nodes G)" by (simp add: N)
    show "distinct (adj (contract G u v1 v2) m)"
      by (rule contract_adj_distinct[OF assms m])
  next
    fix m w assume "m \<in> set (nodes (contract G u v1 v2))"
      and w: "w \<in> set (adj (contract G u v1 v2) m)"
    then have m: "m \<in> set (nodes G)" "m \<noteq> u" by (simp_all add: N)
    have wu: "w \<noteq> u" using w f(2,3) unfolding S[OF m] by (auto split: if_splits)
    have w_cases: "w \<in> set (adj G m) \<or> (m = v1 \<and> w = v2) \<or> (m = v2 \<and> w = v1)"
      using w unfolding S[OF m] by (auto split: if_splits)
    have wn: "w \<in> set (nodes G)"
      using w_cases wf_sym[OF wf m(1)] f(4,5) by blast
    show "w \<in> set (nodes (contract G u v1 v2))" using wn wu by (simp add: N)
    have bk: "m \<in> set (adj G w) \<or> (m = v1 \<and> w = v2) \<or> (m = v2 \<and> w = v1)"
      using w_cases wf_sym[OF wf m(1)] by blast
    show "m \<in> set (adj (contract G u v1 v2) w)"
      unfolding S[OF wn wu] using bk m(2) by auto
  qed
qed

lemma contract_no_self_loops:
  assumes wf: "wf_graph G" and nl: "no_self_loops G" and u: "u \<in> set (nodes G)"
    and a: "adj G u = [v1, v2]"
  shows "no_self_loops (contract G u v1 v2)"
  unfolding no_self_loops_def
proof
  note f = nbrs_facts[OF assms]
  fix m assume "m \<in> set (nodes (contract G u v1 v2))"
  then have m: "m \<in> set (nodes G)" "m \<noteq> u" by (simp_all add: contract_nodes[OF assms])
  have "m \<notin> set (adj G m)" using nl m(1) unfolding no_self_loops_def by blast
  then show "m \<notin> set (adj (contract G u v1 v2) m)"
    unfolding contract_adj_set[OF assms m] using f(1) by auto
qed

lemma length_removeAll_distinct:
  "distinct xs \<Longrightarrow> x \<in> set xs \<Longrightarrow> length (removeAll x xs) = length xs - 1"
  by (simp add: distinct_remove1_removeAll[symmetric] length_remove1)

lemma two_members_length:
  assumes "x \<in> set xs" "y \<in> set xs" "x \<noteq> y"
  shows "2 \<le> length xs"
proof -
  have "card {x, y} \<le> card (set xs)" using assms by (intro card_mono) auto
  then have "2 \<le> card (set xs)" using assms(3) by simp
  then show ?thesis using card_length[of xs] by linarith
qed

lemma degree_no_loop:
  "no_self_loops G \<Longrightarrow> m \<in> set (nodes G) \<Longrightarrow> degree G m = length (adj G m)"
  unfolding no_self_loops_def degree_def by simp

lemma contract_degree:
  assumes wf: "wf_graph G" and nl: "no_self_loops G" and u: "u \<in> set (nodes G)"
    and a: "adj G u = [v1, v2]" and m: "m \<in> set (nodes G)" "m \<noteq> u"
  shows "degree (contract G u v1 v2) m =
     (if (m = v1 \<or> m = v2) \<and> v2 \<in> set (adj G v1) then degree G m - 1 else degree G m)"
    and "(m = v1 \<or> m = v2) \<and> v2 \<in> set (adj G v1) \<Longrightarrow> 2 \<le> degree G m"
proof -
  note f = nbrs_facts[OF wf nl u a]
  note A = contract_adj[OF wf nl u a]
  have sym: "v2 \<in> set (adj G v1) \<longleftrightarrow> v1 \<in> set (adj G v2)"
    using wf_sym[OF wf] f(4,5) by blast
  have m': "m \<in> set (nodes (contract G u v1 v2))"
    using m by (simp add: contract_nodes[OF wf nl u a])
  have d': "degree (contract G u v1 v2) m = length (adj (contract G u v1 v2) m)"
    by (rule degree_no_loop[OF contract_no_self_loops[OF wf nl u a] m'])
  have d: "degree G m = length (adj G m)" by (rule degree_no_loop[OF nl m(1)])
  have dm: "distinct (adj G m)" by (rule wf_distinct[OF wf m(1)])
  consider "m = v1" | "m = v2" | "m \<noteq> v1" "m \<noteq> v2" by blast
  then show "degree (contract G u v1 v2) m =
     (if (m = v1 \<or> m = v2) \<and> v2 \<in> set (adj G v1) then degree G m - 1 else degree G m)"
  proof cases
    case 1
    then show ?thesis unfolding d d' using f dm
      by (simp add: A length_removeAll_distinct)
  next
    case 2
    then show ?thesis unfolding d d' using f dm sym
      by (simp add: A length_removeAll_distinct)
  next
    case 3
    then show ?thesis unfolding d d' using m by (simp add: A)
  qed
  assume c: "(m = v1 \<or> m = v2) \<and> v2 \<in> set (adj G v1)"
  show "2 \<le> degree G m" unfolding d
  proof (cases "m = v1")
    case True
    then show "2 \<le> length (adj G m)"
      using two_members_length[of u "adj G v1" v2] f c by auto
  next
    case False
    then have "m = v2" using c by blast
    then show "2 \<le> length (adj G m)"
      using two_members_length[of u "adj G v2" v1] f c sym by auto
  qed
qed

lemma fold_add_node:
  "distinct (ms @ ns) \<Longrightarrow>
   fold add_node ns \<lparr>nodes = ms, adj = (\<lambda>_. [])\<rparr> = \<lparr>nodes = ms @ ns, adj = (\<lambda>_. [])\<rparr>"
proof (induction ns arbitrary: ms)
  case Nil
  then show ?case by simp
next
  case (Cons n ns)
  have 1: "add_node n \<lparr>nodes = ms, adj = (\<lambda>_. [])\<rparr> = \<lparr>nodes = ms @ [n], adj = (\<lambda>_. [])\<rparr>"
    using Cons.prems by (auto simp: add_node_def fun_eq_iff)
  have 2: "distinct ((ms @ [n]) @ ns)" using Cons.prems by simp
  show ?case using Cons.IH[OF 2] by (simp add: 1)
qed

lemma add_edge_known_set:
  assumes "u \<in> set (nodes G)" "v \<in> set (nodes G)"
  shows "set (adj (add_edge u v G) n) =
         set (adj G n) \<union> (if n = u then {v} else {}) \<union> (if n = v then {u} else {})"
  using assms by (auto simp: add_edge_def put_nbr_def add_node_def)

lemma add_edge_known_distinct:
  assumes "u \<in> set (nodes G)" "v \<in> set (nodes G)" "distinct (adj G n)"
  shows "distinct (adj (add_edge u v G) n)"
  using assms by (auto simp: add_edge_def put_nbr_def add_node_def)

lemma add_edges_from_known:
  assumes "\<forall>(a, b) \<in> set es. a \<in> set (nodes H) \<and> b \<in> set (nodes H)"
  shows "nodes (add_edges_from es H) = nodes H"
    and "set (adj (add_edges_from es H) n) =
         set (adj H n) \<union> {v. (n, v) \<in> set es} \<union> {v. (v, n) \<in> set es}"
    and "distinct (adj H n) \<Longrightarrow> distinct (adj (add_edges_from es H) n)"
  using assms
proof (induction es arbitrary: H)
  case Nil
  { case 1 show ?case by (simp add: add_edges_from_def) }
  { case 2 show ?case by (simp add: add_edges_from_def) }
  { case 3 then show ?case by (simp add: add_edges_from_def) }
next
  case (Cons e es)
  obtain a b where e: "e = (a, b)" by (cases e)
  { case 1
    then have ab: "a \<in> set (nodes H)" "b \<in> set (nodes H)" using e by auto
    have k: "\<forall>(x, y) \<in> set es. x \<in> set (nodes (add_edge a b H)) \<and> y \<in> set (nodes (add_edge a b H))"
      using 1 ab by (simp add: add_edge_known_nodes)
    have "add_edges_from (e # es) H = add_edges_from es (add_edge a b H)"
      by (simp add: add_edges_from_def e)
    then show ?case using Cons.IH(1)[OF k] ab by (simp add: add_edge_known_nodes) }
  { case 2
    then have ab: "a \<in> set (nodes H)" "b \<in> set (nodes H)" using e by auto
    have k: "\<forall>(x, y) \<in> set es. x \<in> set (nodes (add_edge a b H)) \<and> y \<in> set (nodes (add_edge a b H))"
      using 2 ab by (simp add: add_edge_known_nodes)
    have "add_edges_from (e # es) H = add_edges_from es (add_edge a b H)"
      by (simp add: add_edges_from_def e)
    then show ?case using Cons.IH(2)[OF k] ab e
      by (auto simp: add_edge_known_set) }
  { case 3
    then have ab: "a \<in> set (nodes H)" "b \<in> set (nodes H)" using e by auto
    have k: "\<forall>(x, y) \<in> set es. x \<in> set (nodes (add_edge a b H)) \<and> y \<in> set (nodes (add_edge a b H))"
      using 3 ab by (simp add: add_edge_known_nodes)
    have "add_edges_from (e # es) H = add_edges_from es (add_edge a b H)"
      by (simp add: add_edges_from_def e)
    then show ?case using Cons.IH(3)[OF add_edge_known_distinct[OF ab 3(1)] k] by simp }
qed

lemma adj_pairs_iff: "(a, b) \<in> set (adj_pairs G) \<longleftrightarrow> a \<in> set (nodes G) \<and> b \<in> set (adj G a)"
  by (auto simp: adj_pairs_def)

lemma copy_props:
  assumes wf: "wf_graph G"
  shows "nodes (copy G) = nodes G"
    and "n \<in> set (nodes G) \<Longrightarrow> set (adj (copy G) n) = set (adj G n)"
    and "distinct (adj (copy G) n)"
proof -
  let ?H = "\<lparr>nodes = nodes G, adj = (\<lambda>_. [])\<rparr> :: 'a graph"
  have base: "fold add_node (nodes G) empty_graph = ?H"
    using fold_add_node[of "[]" "nodes G"] wf_distinct_nodes[OF wf]
    by (simp add: empty_graph_def)
  have c: "copy G = add_edges_from (adj_pairs G) ?H"
    by (simp add: copy_def base)
  have k: "\<forall>(a, b) \<in> set (adj_pairs G). a \<in> set (nodes ?H) \<and> b \<in> set (nodes ?H)"
  proof (clarify)
    fix a b assume "(a, b) \<in> set (adj_pairs G)"
    then have ab: "a \<in> set (nodes G)" "b \<in> set (adj G a)" by (simp_all add: adj_pairs_iff)
    then show "a \<in> set (nodes ?H) \<and> b \<in> set (nodes ?H)" using wf_sym[OF wf ab] by simp
  qed
  show "nodes (copy G) = nodes G"
    unfolding c using add_edges_from_known(1)[OF k] by simp
  show "distinct (adj (copy G) n)"
    unfolding c using add_edges_from_known(3)[OF k, of n] by simp
  assume n: "n \<in> set (nodes G)"
  have "set (adj (copy G) n) = {v. (n, v) \<in> set (adj_pairs G)} \<union> {v. (v, n) \<in> set (adj_pairs G)}"
    unfolding c using add_edges_from_known(2)[OF k, of n] by simp
  also have "\<dots> = set (adj G n)"
  proof -
    have "\<And>v. v \<in> set (nodes G) \<Longrightarrow> n \<in> set (adj G v) \<Longrightarrow> v \<in> set (adj G n)"
      using wf_sym[OF wf] by blast
    then show ?thesis using n by (auto simp: adj_pairs_iff)
  qed
  finally show "set (adj (copy G) n) = set (adj G n)" .
qed

lemma copy_same: "wf_graph G \<Longrightarrow> same_graph (copy G) G"
  unfolding same_graph_def by (simp add: copy_props)

lemma same_graph_wf:
  assumes s: "same_graph H G" and wf: "wf_graph G" and d: "\<forall>n \<in> set (nodes H). distinct (adj H n)"
  shows "wf_graph H"
proof -
  have N: "nodes H = nodes G" using s unfolding same_graph_def by simp
  have A: "\<And>n. n \<in> set (nodes G) \<Longrightarrow> set (adj H n) = set (adj G n)"
    using s unfolding same_graph_def by simp
  show ?thesis unfolding wf_graph_def N
  proof (intro conjI ballI)
    show "distinct (nodes G)" by (rule wf_distinct_nodes[OF wf])
  next
    fix u assume "u \<in> set (nodes G)"
    then show "distinct (adj H u)" using d N by simp
  next
    fix u v assume u: "u \<in> set (nodes G)" and "v \<in> set (adj H u)"
    then have v: "v \<in> set (adj G u)" using A by simp
    show "v \<in> set (nodes G)" using wf_sym[OF wf u v] by simp
    then show "u \<in> set (adj H v)" using wf_sym[OF wf u v] A by simp
  qed
qed

lemma same_graph_no_self_loops:
  "same_graph H G \<Longrightarrow> no_self_loops G \<Longrightarrow> no_self_loops H"
  unfolding same_graph_def no_self_loops_def by simp

lemma same_graph_degree:
  assumes s: "same_graph H G" and wfH: "wf_graph H" and wfG: "wf_graph G"
    and n: "n \<in> set (nodes G)"
  shows "degree H n = degree G n"
proof -
  have nH: "n \<in> set (nodes H)" using s n unfolding same_graph_def by simp
  have e: "set (adj H n) = set (adj G n)" using s nH unfolding same_graph_def by blast
  have "length (adj H n) = card (set (adj H n))"
    using wf_distinct[OF wfH nH] by (simp add: distinct_card)
  also have "\<dots> = length (adj G n)"
    using wf_distinct[OF wfG n] by (simp add: e distinct_card)
  finally show ?thesis by (simp add: degree_def e)
qed

lemma copy_wf: "wf_graph G \<Longrightarrow> wf_graph (copy G)"
  by (rule same_graph_wf[OF copy_same]) (simp_all add: copy_props)

lemma copy_degree: "wf_graph G \<Longrightarrow> n \<in> set (nodes G) \<Longrightarrow> degree (copy G) n = degree G n"
  by (rule same_graph_degree[OF copy_same copy_wf])

lemma copy_degree_two_nodes: "wf_graph G \<Longrightarrow> degree_two_nodes (copy G) = degree_two_nodes G"
  unfolding degree_two_nodes_def by (simp add: copy_props(1) copy_degree cong: filter_cong)

lemma copy_isolates: "wf_graph G \<Longrightarrow> isolates (copy G) = isolates G"
  unfolding isolates_def by (simp add: copy_props(1) copy_degree cong: filter_cong)

lemma degree_two_head:
  assumes "degree_two_nodes G = u # us"
  shows "u \<in> set (nodes G)" "degree G u = 2"
proof -
  have "u \<in> set (degree_two_nodes G)" using assms by simp
  then show "u \<in> set (nodes G)" "degree G u = 2" by (simp_all add: degree_two_nodes_def)
qed

lemma length_two: "length xs = 2 \<Longrightarrow> \<exists>a b. xs = [a, b]"
  by (cases xs; cases "tl xs") auto

lemma minor_loop_unfold:
  assumes q: "q < length s" and wf: "wf_graph (s ! q)" and nl: "no_self_loops (s ! q)"
    and h: "degree_two_nodes (s ! q) = u # us"
  shows "\<exists>v1 v2. adj (s ! q) u = [v1, v2] \<and>
           (\<forall>k. minor_loop (Suc k) q s = minor_loop k q (s[q := contract (s ! q) u v1 v2]))"
proof -
  note du = degree_two_head[OF h]
  have "length (adj (s ! q) u) = 2" using degree_no_loop[OF nl du(1)] du(2) by simp
  then obtain v1 v2 where a: "adj (s ! q) u = [v1, v2]" using length_two by blast
  note f = nbrs_facts[OF wf nl du(1) a]
  let ?c = "v1 \<noteq> v2 \<and> \<not> has_edge (s ! q) v1 v2"
  let ?s1 = "if ?c then s[q := add_edge v1 v2 (s ! q)] else s"
  let ?g1 = "if ?c then add_edge v1 v2 (s ! q) else s ! q"
  have g1: "?s1 ! q = ?g1" using q by simp
  have un: "u \<in> set (nodes ?g1)" using du(1) f by (simp add: add_edge_known_nodes)
  have rn: "remove_node u (?s1 ! q) = Inr (contract (s ! q) u v1 v2)"
    unfolding g1 using un by (simp add: remove_node_def contract_def)
  have upd: "?s1[q := contract (s ! q) u v1 v2] = s[q := contract (s ! q) u v1 v2]"
    by simp
  have "minor_loop (Suc k) q s = minor_loop k q (s[q := contract (s ! q) u v1 v2])" for k
    using h a rn upd by (simp add: neighbors_def Let_def del: list_update_overwrite)
  then show ?thesis using a by blast
qed

lemma minor_loop_invariant:
  assumes step: "\<And>G u v1 v2. wf_graph G \<Longrightarrow> no_self_loops G \<Longrightarrow> P G \<Longrightarrow>
      u \<in> set (nodes G) \<Longrightarrow> degree G u = 2 \<Longrightarrow> adj G u = [v1, v2] \<Longrightarrow> P (contract G u v1 v2)"
  shows "q < length s \<Longrightarrow> wf_graph (s ! q) \<Longrightarrow> no_self_loops (s ! q) \<Longrightarrow> P (s ! q) \<Longrightarrow>
         length (nodes (s ! q)) < fuel \<Longrightarrow>
         \<exists>s'. minor_loop fuel q s = Some (Inr s') \<and> length s' = length s \<and>
              (\<forall>r. r \<noteq> q \<longrightarrow> s' ! r = s ! r) \<and>
              wf_graph (s' ! q) \<and> no_self_loops (s' ! q) \<and> P (s' ! q) \<and>
              degree_two_nodes (s' ! q) = []"
proof (induction fuel arbitrary: s)
  case 0
  then show ?case by simp
next
  case (Suc k)
  show ?case
  proof (cases "degree_two_nodes (s ! q)")
    case Nil
    then show ?thesis using Suc.prems by simp
  next
    case (Cons u us)
    note du = degree_two_head[OF Cons]
    obtain v1 v2 where a: "adj (s ! q) u = [v1, v2]"
      and unf: "minor_loop (Suc k) q s = minor_loop k q (s[q := contract (s ! q) u v1 v2])"
      using minor_loop_unfold[OF Suc.prems(1-3) Cons] by blast
    let ?G' = "contract (s ! q) u v1 v2"
    let ?s1 = "s[q := ?G']"
    have q1: "q < length ?s1" using Suc.prems(1) by simp
    have at: "?s1 ! q = ?G'" using Suc.prems(1) by simp
    have wf': "wf_graph (?s1 ! q)" unfolding at
      by (rule contract_wf[OF Suc.prems(2,3) du(1) a])
    have nl': "no_self_loops (?s1 ! q)" unfolding at
      by (rule contract_no_self_loops[OF Suc.prems(2,3) du(1) a])
    have P': "P (?s1 ! q)" unfolding at
      by (rule step[OF Suc.prems(2,3,4) du a])
    have "length (nodes ?G') = length (nodes (s ! q)) - 1"
      using du(1) wf_distinct_nodes[OF Suc.prems(2)]
      by (simp add: contract_nodes[OF Suc.prems(2,3) du(1) a] length_removeAll_distinct)
    moreover have "0 < length (nodes (s ! q))" using du(1) by (cases "nodes (s ! q)") auto
    ultimately have len: "length (nodes (?s1 ! q)) < k" unfolding at using Suc.prems(5) by linarith
    obtain s' where r: "minor_loop k q ?s1 = Some (Inr s')" "length s' = length ?s1"
      "\<forall>r. r \<noteq> q \<longrightarrow> s' ! r = ?s1 ! r" "wf_graph (s' ! q)" "no_self_loops (s' ! q)"
      "P (s' ! q)" "degree_two_nodes (s' ! q) = []"
      using Suc.IH[OF q1 wf' nl' P' len] by blast
    show ?thesis
      apply (rule exI[of _ s'])
      using r unf by simp
  qed
qed

lemma degree_zero_iff: "degree G n = 0 \<longleftrightarrow> adj G n = []"
  by (auto simp: degree_def)

lemma drop_isolated:
  assumes "adj G n = []"
  shows "drop_node n G = \<lparr>nodes = removeAll n (nodes G), adj = adj G\<rparr>"
  using assms by (auto simp: drop_node_def fun_eq_iff)

lemma remove_nodes_from_isolated:
  "\<forall>n \<in> set ns. adj G n = [] \<Longrightarrow>
   remove_nodes_from ns G = \<lparr>nodes = filter (\<lambda>m. m \<notin> set ns) (nodes G), adj = adj G\<rparr>"
proof (induction ns arbitrary: G)
  case Nil
  then show ?case by (simp add: remove_nodes_from_def)
next
  case (Cons n ns)
  let ?H = "\<lparr>nodes = removeAll n (nodes G), adj = adj G\<rparr>"
  have a: "adj G n = []" using Cons.prems by simp
  have one: "(if n \<in> set (nodes G) then drop_node n G else G) = ?H"
    by (simp add: drop_isolated[OF a] removeAll_id)
  have "remove_nodes_from (n # ns) G = remove_nodes_from ns ?H"
    using one by (simp add: remove_nodes_from_def)
  also have "\<dots> = \<lparr>nodes = filter (\<lambda>m. m \<notin> set ns) (nodes ?H), adj = adj ?H\<rparr>"
    by (rule Cons.IH) (use Cons.prems in simp)
  also have "\<dots> = \<lparr>nodes = filter (\<lambda>m. m \<notin> set (n # ns)) (nodes G), adj = adj G\<rparr>"
    by (auto simp: removeAll_filter_not_eq intro: filter_cong)
  finally show ?case .
qed

lemma remove_isolates:
  "remove_nodes_from (isolates G) G =
     \<lparr>nodes = filter (\<lambda>m. degree G m \<noteq> 0) (nodes G), adj = adj G\<rparr>"
proof -
  have "\<forall>n \<in> set (isolates G). adj G n = []"
    by (simp add: isolates_def degree_zero_iff)
  then have "remove_nodes_from (isolates G) G =
      \<lparr>nodes = filter (\<lambda>m. m \<notin> set (isolates G)) (nodes G), adj = adj G\<rparr>"
    by (rule remove_nodes_from_isolated)
  moreover have "filter (\<lambda>m. m \<notin> set (isolates G)) (nodes G) =
      filter (\<lambda>m. degree G m \<noteq> 0) (nodes G)"
    by (rule filter_cong) (simp_all add: isolates_def)
  ultimately show ?thesis by simp
qed

lemma remove_isolates_props:
  assumes wf: "wf_graph G"
  defines "H \<equiv> remove_nodes_from (isolates G) G"
  shows "wf_graph H"
    and "no_self_loops G \<Longrightarrow> no_self_loops H"
    and "set (nodes H) \<subseteq> set (nodes G)"
    and "degree H n = degree G n"
    and "isolates H = []"
    and "degree_two_nodes G = [] \<Longrightarrow> degree_two_nodes H = []"
proof -
  have N: "nodes H = filter (\<lambda>m. degree G m \<noteq> 0) (nodes G)" and A: "adj H = adj G"
    unfolding H_def remove_isolates by simp_all
  show D: "degree H n = degree G n" for n by (simp add: degree_def A)
  show "set (nodes H) \<subseteq> set (nodes G)" by (auto simp: N)
  show "isolates H = []" by (auto simp: isolates_def D N filter_empty_conv)
  show "degree_two_nodes G = [] \<Longrightarrow> degree_two_nodes H = []"
    by (auto simp: degree_two_nodes_def D N filter_empty_conv)
  show "no_self_loops G \<Longrightarrow> no_self_loops H"
    by (auto simp: no_self_loops_def N A)
  show "wf_graph H" unfolding wf_graph_def
  proof (intro conjI ballI)
    show "distinct (nodes H)" using wf_distinct_nodes[OF wf] by (simp add: N)
  next
    fix u assume "u \<in> set (nodes H)"
    then have "u \<in> set (nodes G)" by (simp add: N)
    then show "distinct (adj H u)" using wf_distinct[OF wf] by (simp add: A)
  next
    fix u v assume "u \<in> set (nodes H)" and "v \<in> set (adj H u)"
    then have u: "u \<in> set (nodes G)" and v: "v \<in> set (adj G u)" by (simp_all add: N A)
    note sy = wf_sym[OF wf u v]
    have "adj G v \<noteq> []" using sy by auto
    then show "v \<in> set (nodes H)" using sy by (simp add: N degree_zero_iff)
    show "u \<in> set (adj H v)" using sy by (simp add: A)
  qed
qed

lemma minor_loop_frame:
  "minor_loop k q s = Some (Inr s') \<Longrightarrow>
   length s' = length s \<and> (\<forall>r. r \<noteq> q \<longrightarrow> s' ! r = s ! r)"
proof (induction k arbitrary: s)
  case 0
  then show ?case by simp
next
  case (Suc k)
  show ?case
  proof (cases "degree_two_nodes (s ! q)")
    case Nil
    then show ?thesis using Suc.prems by simp
  next
    case (Cons u us)
    show ?thesis
    proof (cases "\<exists>v1 v2. neighbors (s ! q) u = [v1, v2]")
      case False
      then have "minor_loop (Suc k) q s = minor_loop k q s"
        using Cons by (auto split: list.splits)
      then show ?thesis using Suc.IH Suc.prems by simp
    next
      case True
      then obtain v1 v2 where n: "neighbors (s ! q) u = [v1, v2]" by blast
      let ?s1 = "if v1 \<noteq> v2 \<and> \<not> has_edge (s ! q) v1 v2
                 then s[q := add_edge v1 v2 (s ! q)] else s"
      from Suc.prems obtain g where g: "remove_node u (?s1 ! q) = Inr g"
        and r: "minor_loop k q (?s1[q := g]) = Some (Inr s')"
        using Cons n by (auto simp: Let_def split: sum.splits if_splits)
      have "length s' = length (?s1[q := g]) \<and> (\<forall>r. r \<noteq> q \<longrightarrow> s' ! r = ?s1[q := g] ! r)"
        by (rule Suc.IH[OF r])
      then show ?thesis by auto
    qed
  qed
qed

lemma reducer_master:
  assumes step: "\<And>G u v1 v2. wf_graph G \<Longrightarrow> no_self_loops G \<Longrightarrow> P G \<Longrightarrow>
      u \<in> set (nodes G) \<Longrightarrow> degree G u = 2 \<Longrightarrow> adj G u = [v1, v2] \<Longrightarrow> P (contract G u v1 v2)"
    and p: "p < length s" and wf: "wf_graph (s ! p)" and nl: "no_self_loops (s ! p)"
    and P0: "P (copy (s ! p))" and fuel: "length (nodes (s ! p)) < fuel"
  shows "\<exists>s' G1. get_kuratowski_minor fuel p s = Some (Inr (length s, s')) \<and>
           length s' = Suc (length s) \<and> (\<forall>r < length s. s' ! r = s ! r) \<and>
           s' ! length s = remove_nodes_from (isolates G1) G1 \<and>
           wf_graph G1 \<and> no_self_loops G1 \<and> P G1 \<and> degree_two_nodes G1 = []"
proof -
  let ?q = "length s"
  let ?s0 = "s @ [copy (s ! p)]"
  have q0: "?q < length ?s0" by simp
  have at: "?s0 ! ?q = copy (s ! p)" by simp
  have wf0: "wf_graph (?s0 ! ?q)" unfolding at by (rule copy_wf[OF wf])
  have nl0: "no_self_loops (?s0 ! ?q)" unfolding at
    by (rule same_graph_no_self_loops[OF copy_same[OF wf] nl])
  have P0': "P (?s0 ! ?q)" unfolding at by (rule P0)
  have f0: "length (nodes (?s0 ! ?q)) < fuel" unfolding at using fuel by (simp add: copy_props(1)[OF wf])
  obtain s1 where r: "minor_loop fuel ?q ?s0 = Some (Inr s1)" "length s1 = length ?s0"
      "\<forall>r. r \<noteq> ?q \<longrightarrow> s1 ! r = ?s0 ! r" "wf_graph (s1 ! ?q)" "no_self_loops (s1 ! ?q)"
      "P (s1 ! ?q)" "degree_two_nodes (s1 ! ?q) = []"
    using minor_loop_invariant[of P ?q ?s0 fuel, OF step q0 wf0 nl0 P0' f0] by blast
  let ?G1 = "s1 ! ?q"
  let ?s' = "s1[?q := remove_nodes_from (isolates ?G1) ?G1]"
  have g: "get_kuratowski_minor fuel p s = Some (Inr (?q, ?s'))"
    using r(1) by (simp add: get_kuratowski_minor_def Let_def)
  have old: "\<forall>r < ?q. ?s' ! r = s ! r" using r(3) by (simp add: nth_append)
  have new: "?s' ! ?q = remove_nodes_from (isolates ?G1) ?G1" using r(2) by simp
  show ?thesis
    apply (rule exI[of _ ?s'], rule exI[of _ ?G1])
    using g old new r(2,4,5,6,7) by simp
qed

lemma classifier_empty: "get_kuratowski_type isb sets empty_graph = ''Kuratowski Minor''"
  by (simp add: get_kuratowski_type_def empty_graph_def number_of_nodes_def)

lemma classifier_deg1:
  assumes "nodes G \<noteq> []" "\<forall>n \<in> set (nodes G). degree G n = 1"
  shows "get_kuratowski_type isb sets G \<noteq> ''K_5''"
    "get_kuratowski_type isb sets G \<noteq> ''K_5 Subdivision''"
    "number_of_nodes G < 6 \<Longrightarrow> get_kuratowski_type isb sets G = ''Kuratowski Minor''"
proof -
  have nc: "5 \<le> number_of_nodes G \<Longrightarrow> \<not> is_complete_graph_custom G"
    using assms by (cases "nodes G") (auto simp: is_complete_graph_custom_def number_of_nodes_def)
  show "get_kuratowski_type isb sets G \<noteq> ''K_5''"
    using nc by (auto simp: get_kuratowski_type_def Let_def split: option.splits prod.splits)
  show "get_kuratowski_type isb sets G \<noteq> ''K_5 Subdivision''"
    using nc by (auto simp: get_kuratowski_type_def Let_def split: option.splits prod.splits)
  show "number_of_nodes G < 6 \<Longrightarrow> get_kuratowski_type isb sets G = ''Kuratowski Minor''"
    using nc by (auto simp: get_kuratowski_type_def Let_def split: option.splits prod.splits)
qed

text \<open>
  Claim C10. Whenever the reducer returns, the graph it returns is a new object and
  every object that was in the store before the call, the input among them, is what it
  was before the call.
\<close>

theorem reducer_frame:
  assumes "get_kuratowski_minor fuel p s = Some (Inr (q, s'))"
  shows "q = length s \<and> length s' = Suc (length s) \<and> (\<forall>r < length s. s' ! r = s ! r)"
proof -
  let ?s0 = "s @ [copy (s ! p)]"
  obtain s1 where l: "minor_loop fuel (length s) ?s0 = Some (Inr s1)"
    and q: "q = length s"
    and s': "s' = s1[length s := remove_nodes_from (isolates (s1 ! length s)) (s1 ! length s)]"
    using assms by (auto simp: get_kuratowski_minor_def Let_def split: option.splits sum.splits)
  note f = minor_loop_frame[OF l]
  show ?thesis using f q s' by (simp add: nth_append)
qed

theorem reducer_frame_witness:
  "\<exists>s'. get_kuratowski_minor 4 0 [triangle] = Some (Inr (1, s')) \<and>
        length s' = 2 \<and> s' ! 0 = triangle"
proof -
  have h: "(0::nat) < length [triangle]" "wf_graph ([triangle] ! 0)"
    "no_self_loops ([triangle] ! 0)" "length (nodes ([triangle] ! 0)) < 4"
    by code_simp+
  obtain s' where r: "get_kuratowski_minor 4 0 [triangle] = Some (Inr (length [triangle], s'))"
    using reducer_master[of "\<lambda>_. True" 0 "[triangle]" 4, OF _ h(1,2,3) _ h(4)] by auto
  show ?thesis using r reducer_frame[OF r] by simp
qed

lemma contract_deg12:
  assumes wf: "wf_graph G" and nl: "no_self_loops G"
    and P: "nodes G \<noteq> [] \<and> (\<forall>n \<in> set (nodes G). degree G n = 1 \<or> degree G n = 2)"
    and u: "u \<in> set (nodes G)" and a: "adj G u = [v1, v2]"
  shows "nodes (contract G u v1 v2) \<noteq> [] \<and>
         (\<forall>n \<in> set (nodes (contract G u v1 v2)).
            degree (contract G u v1 v2) n = 1 \<or> degree (contract G u v1 v2) n = 2)"
proof
  note f = nbrs_facts[OF wf nl u a]
  note N = contract_nodes[OF wf nl u a]
  have "v1 \<in> set (nodes (contract G u v1 v2))" using f by (simp add: N)
  then show "nodes (contract G u v1 v2) \<noteq> []" by auto
  show "\<forall>n \<in> set (nodes (contract G u v1 v2)).
            degree (contract G u v1 v2) n = 1 \<or> degree (contract G u v1 v2) n = 2"
  proof
    fix m assume "m \<in> set (nodes (contract G u v1 v2))"
    then have m: "m \<in> set (nodes G)" "m \<noteq> u" by (simp_all add: N)
    have old: "degree G m = 1 \<or> degree G m = 2" using P m(1) by blast
    note d = contract_degree[OF wf nl u a m]
    show "degree (contract G u v1 v2) m = 1 \<or> degree (contract G u v1 v2) m = 2"
    proof (cases "(m = v1 \<or> m = v2) \<and> v2 \<in> set (adj G v1)")
      case True
      then have "2 \<le> degree G m" by (rule d(2))
      then show ?thesis using old True d(1) by simp
    next
      case False
      then have "degree (contract G u v1 v2) m = degree G m" using d(1) by auto
      then show ?thesis using old by simp
    qed
  qed
qed

text \<open>
  Claim C4, as amended. For every non-empty graph without self-loops in which every
  node has degree 2, the reducer does not return the empty graph: it returns a non-empty
  graph in which every node has degree 1, so no isolated node arises and none is
  removed. The classifier never labels that graph \<open>K_5\<close> or \<open>K_5 Subdivision\<close>, labels
  it \<open>Kuratowski Minor\<close> when it has fewer than six nodes, and labels the empty graph
  \<open>Kuratowski Minor\<close>.
\<close>

theorem reducer_on_cycles:
  assumes p: "p < length s" and wf: "wf_graph (s ! p)" and nl: "no_self_loops (s ! p)"
    and ne: "nodes (s ! p) \<noteq> []"
    and two: "\<forall>n \<in> set (nodes (s ! p)). degree (s ! p) n = 2"
    and fuel: "length (nodes (s ! p)) < fuel"
  shows "\<exists>s'. get_kuratowski_minor fuel p s = Some (Inr (length s, s')) \<and>
           nodes (s' ! length s) \<noteq> [] \<and>
           (\<forall>n \<in> set (nodes (s' ! length s)). degree (s' ! length s) n = 1) \<and>
           get_kuratowski_type isb sets (s' ! length s) \<noteq> ''K_5'' \<and>
           get_kuratowski_type isb sets (s' ! length s) \<noteq> ''K_5 Subdivision'' \<and>
           (number_of_nodes (s' ! length s) < 6 \<longrightarrow>
              get_kuratowski_type isb sets (s' ! length s) = ''Kuratowski Minor'') \<and>
           get_kuratowski_type isb sets empty_graph = ''Kuratowski Minor''"
proof -
  let ?P = "\<lambda>G. nodes G \<noteq> [] \<and> (\<forall>n \<in> set (nodes G). degree G n = 1 \<or> degree G n = 2)"
  have P0: "?P (copy (s ! p))"
    using ne two by (simp add: copy_props(1)[OF wf] copy_degree[OF wf])
  obtain s' G1 where r: "get_kuratowski_minor fuel p s = Some (Inr (length s, s'))"
      "s' ! length s = remove_nodes_from (isolates G1) G1" "wf_graph G1" "?P G1"
      "degree_two_nodes G1 = []"
    using reducer_master[of ?P p s fuel, OF contract_deg12 p wf nl P0 fuel] by blast
  let ?H = "s' ! length s"
  have one: "\<forall>n \<in> set (nodes G1). degree G1 n = 1"
  proof
    fix n assume n: "n \<in> set (nodes G1)"
    have "n \<notin> set (degree_two_nodes G1)" using r(5) by simp
    then have "degree G1 n \<noteq> 2" using n by (simp add: degree_two_nodes_def)
    then show "degree G1 n = 1" using r(4) n by blast
  qed
  have iso: "isolates G1 = []" using one by (auto simp: isolates_def filter_empty_conv)
  have H: "?H = G1" unfolding r(2) iso by (simp add: remove_nodes_from_def)
  have neH: "nodes ?H \<noteq> []" and oneH: "\<forall>n \<in> set (nodes ?H). degree ?H n = 1"
    unfolding H using r(4) one by simp_all
  note c = classifier_deg1[OF neH oneH, of isb sets]
  show ?thesis
    apply (rule exI[of _ s'])
    using r(1) neH oneH c classifier_empty[of isb sets] by simp
qed

theorem reducer_on_cycles_witness:
  "get_kuratowski_minor 4 0 [triangle] \<noteq> None \<and>
   map_option nodes (result_graph (get_kuratowski_minor 4 0 [triangle])) = Some [1, 2]"
proof -
  have h: "(0::nat) < length [triangle]" "wf_graph ([triangle] ! 0)" "no_self_loops ([triangle] ! 0)"
    "nodes ([triangle] ! 0) \<noteq> []" "\<forall>n \<in> set (nodes ([triangle] ! 0)). degree ([triangle] ! 0) n = 2"
    "length (nodes ([triangle] ! 0)) < 4"
    by code_simp+
  have "get_kuratowski_minor 4 0 [triangle] \<noteq> None"
    using reducer_on_cycles[OF h, of "\<lambda>_. False" "\<lambda>_. None"] by auto
  moreover have "map_option nodes (result_graph (get_kuratowski_minor 4 0 [triangle])) = Some [1, 2]"
    by code_simp
  ultimately show ?thesis by simp
qed

text \<open>
  Claim C4 as it is stated fails on a triangle: every node has degree 2, and the reducer
  returns the two nodes 1 and 2 joined by an edge, not the empty graph.
\<close>

theorem cycle_not_emptied_counterexample:
  "map (degree triangle) (nodes triangle) = [2, 2, 2] \<and>
   map_option nodes (result_graph (get_kuratowski_minor 4 0 [triangle])) = Some [1, 2] \<and>
   map_option nodes (result_graph (get_kuratowski_minor 4 0 [triangle])) \<noteq> Some []"
  by code_simp

section \<open>Termination and idempotence of the reducer\<close>

lemma no_degree_two_iff: "degree_two_nodes G = [] \<longleftrightarrow> (\<forall>n \<in> set (nodes G). degree G n \<noteq> 2)"
  by (auto simp: degree_two_nodes_def filter_empty_conv)

lemma no_isolates_iff: "isolates G = [] \<longleftrightarrow> (\<forall>n \<in> set (nodes G). degree G n \<noteq> 0)"
  by (auto simp: isolates_def filter_empty_conv)

lemma first_degree_two:
  assumes "nodes G = pre @ u # post" "\<forall>m \<in> set pre. degree G m \<noteq> 2" "degree G u = 2"
  shows "degree_two_nodes G = u # filter (\<lambda>n. degree G n = 2) post"
  using assms by (simp add: degree_two_nodes_def filter_empty_conv)

lemma minor_loop_exit:
  assumes "\<forall>n \<in> set (nodes (t ! q)). degree (t ! q) n \<noteq> 2"
  shows "minor_loop (Suc k) q t = Some (Inr t)"
  using assms by (simp add: no_degree_two_iff[symmetric])

lemma minor_loop_iteration:
  assumes q: "q < length t" and wf: "wf_graph (t ! q)" and nl: "no_self_loops (t ! q)"
    and nd: "nodes (t ! q) = pre @ u # post"
    and pre: "\<forall>m \<in> set pre. degree (t ! q) m \<noteq> 2" and du: "degree (t ! q) u = 2"
  shows "\<exists>t'. (\<forall>k. minor_loop (Suc k) q t = minor_loop k q t') \<and> length t' = length t \<and>
           (\<forall>r. r \<noteq> q \<longrightarrow> t' ! r = t ! r) \<and>
           nodes (t' ! q) = pre @ post \<and>
           (\<forall>m \<in> set (nodes (t' ! q)).
              set (adj (t' ! q) m) =
                (set (adj (t ! q) m) - {u}) \<union>
                (if m \<in> set (adj (t ! q) u) then set (adj (t ! q) u) - {m} else {})) \<and>
           wf_graph (t' ! q) \<and> no_self_loops (t' ! q)"
proof -
  let ?G = "t ! q"
  have h: "degree_two_nodes ?G = u # filter (\<lambda>n. degree ?G n = 2) post"
    by (rule first_degree_two[OF nd pre du])
  have uin: "u \<in> set (nodes ?G)" using nd by simp
  obtain v1 v2 where a: "adj ?G u = [v1, v2]"
    and unf: "\<forall>k. minor_loop (Suc k) q t = minor_loop k q (t[q := contract ?G u v1 v2])"
    using minor_loop_unfold[OF q wf nl h] by blast
  let ?G' = "contract ?G u v1 v2"
  let ?t' = "t[q := ?G']"
  note f = nbrs_facts[OF wf nl uin a]
  have at: "?t' ! q = ?G'" using q by simp
  have d: "distinct (pre @ u # post)" using wf_distinct_nodes[OF wf] nd by simp
  have N: "nodes ?G' = pre @ post"
    using d by (simp add: contract_nodes[OF wf nl uin a] nd)
  have A: "set (adj ?G' m) =
                (set (adj ?G m) - {u}) \<union>
                (if m \<in> set (adj ?G u) then set (adj ?G u) - {m} else {})"
    if "m \<in> set (nodes ?G')" for m
  proof -
    have m: "m \<in> set (nodes ?G)" "m \<noteq> u" using that d by (auto simp: N nd)
    show ?thesis unfolding contract_adj_set[OF wf nl uin a m] a using f(1) by auto
  qed
  show ?thesis
    apply (rule exI[of _ ?t'])
    unfolding at
    using unf N A contract_wf[OF wf nl uin a] contract_no_self_loops[OF wf nl uin a] q
    by simp
qed

text \<open>
  Claim C2. For every graph the library can build that has no self-loop, the reducer
  returns whenever it is given more fuel than the graph has nodes, so its loop makes at
  most one contraction for each node and one last iteration, and no node of the graph
  it returns has degree 2. An iteration that finds no node of degree 2 leaves the loop
  with the graph as it is. Every other iteration, on a graph the library can build
  without self-loops, selects the first node of degree 2 in node order and goes on
  with the graph in which that node is removed from the nodes, the other nodes keep
  their order, no object but the copy is touched, and each remaining node has the
  neighbours it had, less the removed node, plus the other neighbour of the removed
  node when it was one of its two neighbours.
\<close>

theorem reducer_terminates:
  fixes s :: "'a store"
  assumes p: "p < length s" and wf: "wf_graph (s ! p)" and nl: "no_self_loops (s ! p)"
  shows
    "(\<forall>fuel. length (nodes (s ! p)) < fuel \<longrightarrow>
        (\<exists>s'. get_kuratowski_minor fuel p s = Some (Inr (length s, s')) \<and>
              (\<forall>n \<in> set (nodes (s' ! length s)). degree (s' ! length s) n \<noteq> 2))) \<and>
     (\<forall>(t :: 'a store) q k.
        (\<forall>n \<in> set (nodes (t ! q)). degree (t ! q) n \<noteq> 2) \<longrightarrow>
        minor_loop (Suc k) q t = Some (Inr t)) \<and>
     (\<forall>(t :: 'a store) q k u pre post.
        q < length t \<and> wf_graph (t ! q) \<and> no_self_loops (t ! q) \<and>
        nodes (t ! q) = pre @ u # post \<and> (\<forall>m \<in> set pre. degree (t ! q) m \<noteq> 2) \<and>
        degree (t ! q) u = 2 \<longrightarrow>
        (\<exists>t'. minor_loop (Suc k) q t = minor_loop k q t' \<and> length t' = length t \<and>
              (\<forall>r. r \<noteq> q \<longrightarrow> t' ! r = t ! r) \<and>
              nodes (t' ! q) = pre @ post \<and>
              (\<forall>m \<in> set (nodes (t' ! q)).
                 set (adj (t' ! q) m) =
                   (set (adj (t ! q) m) - {u}) \<union>
                   (if m \<in> set (adj (t ! q) u) then set (adj (t ! q) u) - {m} else {}))))"
proof (intro conjI allI impI)
  fix fuel assume fuel: "length (nodes (s ! p)) < fuel"
  obtain s' G1 where r: "get_kuratowski_minor fuel p s = Some (Inr (length s, s'))"
      "s' ! length s = remove_nodes_from (isolates G1) G1" "wf_graph G1"
      "degree_two_nodes G1 = []"
    using reducer_master[of "\<lambda>_. True" p s fuel, OF _ p wf nl _ fuel] by auto
  have "degree_two_nodes (s' ! length s) = []"
    unfolding r(2) by (rule remove_isolates_props(6)[OF r(3,4)])
  then have "\<forall>n \<in> set (nodes (s' ! length s)). degree (s' ! length s) n \<noteq> 2"
    by (simp add: no_degree_two_iff)
  then show "\<exists>s'. get_kuratowski_minor fuel p s = Some (Inr (length s, s')) \<and>
              (\<forall>n \<in> set (nodes (s' ! length s)). degree (s' ! length s) n \<noteq> 2)"
    using r(1) by blast
next
  fix t :: "'a store" and q k
  assume "\<forall>n \<in> set (nodes (t ! q)). degree (t ! q) n \<noteq> 2"
  then show "minor_loop (Suc k) q t = Some (Inr t)" by (rule minor_loop_exit)
next
  fix t :: "'a store" and q k u pre post
  assume a: "q < length t \<and> wf_graph (t ! q) \<and> no_self_loops (t ! q) \<and>
        nodes (t ! q) = pre @ u # post \<and> (\<forall>m \<in> set pre. degree (t ! q) m \<noteq> 2) \<and>
        degree (t ! q) u = 2"
  then have q: "q < length t" and w: "wf_graph (t ! q)" and n: "no_self_loops (t ! q)"
    and nd: "nodes (t ! q) = pre @ u # post" and pr: "\<forall>m \<in> set pre. degree (t ! q) m \<noteq> 2"
    and du: "degree (t ! q) u = 2" by blast+
  from minor_loop_iteration[OF q w n nd pr du]
  show "\<exists>t'. minor_loop (Suc k) q t = minor_loop k q t' \<and> length t' = length t \<and>
              (\<forall>r. r \<noteq> q \<longrightarrow> t' ! r = t ! r) \<and>
              nodes (t' ! q) = pre @ post \<and>
              (\<forall>m \<in> set (nodes (t' ! q)).
                 set (adj (t' ! q) m) =
                   (set (adj (t ! q) m) - {u}) \<union>
                   (if m \<in> set (adj (t ! q) u) then set (adj (t ! q) u) - {m} else {}))"
    by blast
qed

theorem reducer_terminates_witness:
  "get_kuratowski_minor 5 0 [square] \<noteq> None \<and>
   map_option (\<lambda>g. map (degree g) (nodes g)) (result_graph (get_kuratowski_minor 5 0 [square]))
     = Some [1, 1]"
proof -
  have h: "(0::nat) < length [square]" "wf_graph ([square] ! 0)" "no_self_loops ([square] ! 0)"
    by code_simp+
  have f: "length (nodes ([square] ! 0)) < 5" by code_simp
  have "get_kuratowski_minor 5 0 [square] \<noteq> None"
    using reducer_terminates[OF h] f by auto
  moreover have "map_option (\<lambda>g. map (degree g) (nodes g))
      (result_graph (get_kuratowski_minor 5 0 [square])) = Some [1, 1]"
    by code_simp
  ultimately show ?thesis by simp
qed

text \<open>
  Claim C3. For every graph the library can build that has no self-loop, no node of the
  graph the reducer returns has degree 2 or degree 0, and the reducer applied to that
  graph returns, in one iteration of the loop, a graph with the same nodes in the same
  order and the same neighbours for each node.
\<close>

theorem reducer_idempotent:
  assumes p: "p < length s" and wf: "wf_graph (s ! p)" and nl: "no_self_loops (s ! p)"
    and fuel: "length (nodes (s ! p)) < fuel" and fuel': "0 < fuel'"
  shows "\<exists>s' s''. get_kuratowski_minor fuel p s = Some (Inr (length s, s')) \<and>
              (\<forall>n \<in> set (nodes (s' ! length s)).
                 degree (s' ! length s) n \<noteq> 2 \<and> degree (s' ! length s) n \<noteq> 0) \<and>
              get_kuratowski_minor fuel' (length s) s' = Some (Inr (Suc (length s), s'')) \<and>
              same_graph (s'' ! Suc (length s)) (s' ! length s)"
proof -
  obtain s' G1 where r: "get_kuratowski_minor fuel p s = Some (Inr (length s, s'))"
      "s' ! length s = remove_nodes_from (isolates G1) G1" "wf_graph G1"
      "degree_two_nodes G1 = []" and len: "length s' = Suc (length s)"
    using reducer_master[of "\<lambda>_. True" p s fuel, OF _ p wf nl _ fuel] by auto
  let ?H = "s' ! length s"
  have d2: "degree_two_nodes ?H = []"
    unfolding r(2) by (rule remove_isolates_props(6)[OF r(3,4)])
  have iso: "isolates ?H = []" unfolding r(2) by (rule remove_isolates_props(5)[OF r(3)])
  have wfH: "wf_graph ?H" unfolding r(2) by (rule remove_isolates_props(1)[OF r(3)])
  have deg: "\<forall>n \<in> set (nodes ?H). degree ?H n \<noteq> 2 \<and> degree ?H n \<noteq> 0"
    using d2 iso by (simp add: no_degree_two_iff no_isolates_iff)
  obtain k where k: "fuel' = Suc k" using fuel' by (cases fuel') auto
  let ?s0 = "s' @ [copy ?H]"
  have loop: "minor_loop fuel' (length s') ?s0 = Some (Inr ?s0)"
    unfolding k using d2 by (simp add: copy_degree_two_nodes[OF wfH])
  have "get_kuratowski_minor fuel' (length s) s' = Some (Inr (length s', ?s0))"
    using loop iso by (simp add: get_kuratowski_minor_def Let_def copy_isolates[OF wfH]
        remove_nodes_from_def)
  moreover have "same_graph (?s0 ! length s') ?H" using copy_same[OF wfH] by simp
  ultimately show ?thesis using r(1) deg len by auto
qed

theorem reducer_idempotent_witness:
  "\<exists>s' s''. get_kuratowski_minor 7 0 [k5_subdivided] = Some (Inr (1, s')) \<and>
        list_all (\<lambda>n. degree (s' ! 1) n \<noteq> 2 \<and> degree (s' ! 1) n \<noteq> 0) (nodes (s' ! 1)) \<and>
        get_kuratowski_minor 1 1 s' = Some (Inr (2, s'')) \<and>
        same_graph (s'' ! 2) (s' ! 1)"
proof -
  have h: "(0::nat) < length [k5_subdivided]" "wf_graph ([k5_subdivided] ! 0)"
    "no_self_loops ([k5_subdivided] ! 0)" "length (nodes ([k5_subdivided] ! 0)) < 7"
    "(0::nat) < 1"
    by code_simp+
  have two: "Suc (Suc 0) = 2" by simp
  show ?thesis using reducer_idempotent[OF h] by (simp add: two list_all_iff)
qed

section \<open>The priority order of the classifier\<close>

lemma complete_custom_spec: "is_complete_graph_custom G = complete_spec G"
  by (auto simp: is_complete_graph_custom_def complete_spec_def node_count_def
      number_of_nodes_def list_all_iff)

lemma classes_3_3_cases:
  "classes_3_3 sets G \<longleftrightarrow>
     (case sets G of Some (p1, p2) \<Rightarrow> card p1 = 3 \<and> card p2 = 3 | None \<Rightarrow> False)"
  by (auto simp: classes_3_3_def split: option.splits)

text \<open>
  Claim C1. For every graph, and whatever the bipartiteness test and the bipartition of
  the library return, the label \<open>get_kuratowski_type\<close> returns is the label of the first
  of the rules that holds, in this order: exactly 5 nodes and complete gives \<open>K_5\<close>;
  exactly 6 nodes, bipartite and two classes of 3 and 3 nodes (none when the library
  raises) gives \<open>K_3,3\<close>; at least 5 nodes and complete gives \<open>K_5 Subdivision\<close>; at
  least 6 nodes and bipartite gives \<open>K_3,3 Subdivision\<close>; and \<open>Kuratowski Minor\<close> when
  no rule holds.
\<close>

theorem classifier_first_match:
  "get_kuratowski_type is_bipartite bipartite_sets G =
     label_text (first_match (spec_rules is_bipartite bipartite_sets) G)"
  by (simp add: get_kuratowski_type_def spec_rules_def classes_3_3_cases Let_def
      complete_custom_spec node_count_def number_of_nodes_def
      split: option.splits prod.splits)

theorem classifier_first_match_witness:
  "get_kuratowski_type (\<lambda>_. False) (\<lambda>_. None) k5_graph = ''K_5'' \<and>
   get_kuratowski_type (\<lambda>_. True) (\<lambda>_. Some ({0, 1, 2}, {3, 4, 5})) k33_graph = ''K_3,3'' \<and>
   get_kuratowski_type (\<lambda>_. True) (\<lambda>_. None) k33_graph = ''K_3,3 Subdivision'' \<and>
   get_kuratowski_type (\<lambda>_. False) (\<lambda>_. None) triangle = ''Kuratowski Minor''"
proof -
  have n: "node_count k5_graph = 5" "node_count k33_graph = 6" "node_count triangle = 3"
    by (simp_all add: node_count_def) code_simp+
  have c: "complete_spec k5_graph" "\<not> complete_spec k33_graph"
    unfolding complete_custom_spec[symmetric] by code_simp+
  have k: "classes_3_3 (\<lambda>_. Some ({0::nat, 1, 2}, {3, 4, 5})) k33_graph"
    "\<not> classes_3_3 (\<lambda>_. None) k33_graph"
    by (simp_all add: classes_3_3_def)
  show ?thesis
    unfolding classifier_first_match spec_rules_def using n c k by simp
qed

section \<open>The graph built from an edge list\<close>

lemma add_node_nodes: "set (nodes (add_node n G)) = insert n (set (nodes G))"
  by (auto simp: add_node_def)

lemma add_node_known: "n \<in> set (nodes G) \<Longrightarrow> add_node n G = G"
  by (simp add: add_node_def)

lemma has_edge_add_node: "has_edge (add_node n G) a b \<longleftrightarrow> has_edge G a b"
  by (auto simp: has_edge_def add_node_def)

lemma has_edge_put_nbr:
  "u \<in> set (nodes G) \<Longrightarrow>
   has_edge (put_nbr u v G) a b \<longleftrightarrow> has_edge G a b \<or> (a = u \<and> b = v)"
  by (auto simp: has_edge_def put_nbr_def)

lemma put_nbr_nodes: "nodes (put_nbr u v G) = nodes G"
  by (simp add: put_nbr_def)

lemma has_edge_add_edge:
  "has_edge (add_edge u v G) a b \<longleftrightarrow>
     has_edge G a b \<or> (a = u \<and> b = v) \<or> (a = v \<and> b = u)"
proof -
  let ?G2 = "add_node v (add_node u G)"
  have u: "u \<in> set (nodes ?G2)" and v: "v \<in> set (nodes ?G2)"
    by (simp_all add: add_node_nodes)
  have v': "v \<in> set (nodes (put_nbr u v ?G2))" using v by (simp add: put_nbr_nodes)
  have "has_edge (add_edge u v G) a b \<longleftrightarrow>
        has_edge ?G2 a b \<or> (a = u \<and> b = v) \<or> (a = v \<and> b = u)"
    unfolding add_edge_def has_edge_put_nbr[OF v'] has_edge_put_nbr[OF u] by blast
  then show ?thesis by (simp add: has_edge_add_node)
qed

lemma put_nbr_present: "v \<in> set (adj G u) \<Longrightarrow> put_nbr u v G = G"
  by (simp add: put_nbr_def)

lemma add_edge_present:
  assumes "has_edge G u v" "has_edge G v u"
  shows "add_edge u v G = G"
  using assms by (simp add: add_edge_def has_edge_def add_node_known put_nbr_present)

lemma add_edge_twice: "add_edge u v (add_edge u v G) = add_edge u v G"
  by (rule add_edge_present) (simp_all add: has_edge_add_edge)

lemma add_edge_reversed: "add_edge v u (add_edge u v G) = add_edge u v G"
  by (rule add_edge_present) (simp_all add: has_edge_add_edge)

lemma wf_empty: "wf_graph empty_graph"
  by (simp add: wf_graph_def empty_graph_def)

lemma wf_add_node:
  assumes wf: "wf_graph G"
  shows "wf_graph (add_node n G)"
proof (cases "n \<in> set (nodes G)")
  case True
  then show ?thesis using wf by (simp add: add_node_known)
next
  case False
  have nb: "\<And>m w. m \<in> set (nodes G) \<Longrightarrow> w \<in> set (adj G m) \<Longrightarrow> w \<noteq> n"
    using wf_sym[OF wf] False by blast
  show ?thesis unfolding wf_graph_def
  proof (intro conjI ballI)
    show "distinct (nodes (add_node n G))"
      using wf_distinct_nodes[OF wf] False by (simp add: add_node_def)
  next
    fix m assume "m \<in> set (nodes (add_node n G))"
    then show "distinct (adj (add_node n G) m)"
      using wf_distinct[OF wf, of m] False by (auto simp: add_node_def)
  next
    fix m w assume m: "m \<in> set (nodes (add_node n G))"
      and w: "w \<in> set (adj (add_node n G) m)"
    have mn: "m \<noteq> n" using w False by (auto simp: add_node_def)
    then have m': "m \<in> set (nodes G)" using m False by (simp add: add_node_def)
    have w': "w \<in> set (adj G m)" using w mn False by (simp add: add_node_def)
    note sy = wf_sym[OF wf m' w']
    show "w \<in> set (nodes (add_node n G))" using sy by (simp add: add_node_nodes)
    show "m \<in> set (adj (add_node n G) w)"
      using sy nb[OF m' w'] False by (simp add: add_node_def)
  qed
qed

lemma wf_add_edge_known:
  assumes wf: "wf_graph G" and u: "u \<in> set (nodes G)" and v: "v \<in> set (nodes G)"
  shows "wf_graph (add_edge u v G)"
  unfolding wf_graph_def add_edge_known_nodes[OF u v]
proof (intro conjI ballI)
  show "distinct (nodes G)" by (rule wf_distinct_nodes[OF wf])
next
  fix m assume m: "m \<in> set (nodes G)"
  show "distinct (adj (add_edge u v G) m)"
    by (rule add_edge_known_distinct[OF u v wf_distinct[OF wf m]])
next
  fix m w assume m: "m \<in> set (nodes G)" and w: "w \<in> set (adj (add_edge u v G) m)"
  from w consider "w \<in> set (adj G m)" | "m = u" "w = v" | "m = v" "w = u"
    unfolding add_edge_known_set[OF u v] by (auto split: if_splits)
  then show "w \<in> set (nodes G)"
  proof cases
    case 1
    then show ?thesis using wf_sym[OF wf m] by blast
  qed (use u v in simp_all)
  from w consider "w \<in> set (adj G m)" | "m = u" "w = v" | "m = v" "w = u"
    unfolding add_edge_known_set[OF u v] by (auto split: if_splits)
  then show "m \<in> set (adj (add_edge u v G) w)"
  proof cases
    case 1
    then have "m \<in> set (adj G w)" using wf_sym[OF wf m] by blast
    then show ?thesis unfolding add_edge_known_set[OF u v] by simp
  qed (simp_all add: add_edge_known_set[OF u v])
qed

lemma add_edge_after_nodes: "add_edge u v G = add_edge u v (add_node v (add_node u G))"
  by (simp add: add_edge_def add_node_known add_node_nodes)

lemma wf_add_edge: "wf_graph G \<Longrightarrow> wf_graph (add_edge u v G)"
  by (subst add_edge_after_nodes)
     (rule wf_add_edge_known, simp_all add: wf_add_node add_node_nodes)

lemma add_edge_nodes: "set (nodes (add_edge u v G)) = insert u (insert v (set (nodes G)))"
  by (auto simp: add_edge_def put_nbr_nodes add_node_nodes)

lemma add_edges_from_Cons: "add_edges_from ((u, v) # es) G = add_edges_from es (add_edge u v G)"
  by (simp add: add_edges_from_def)

lemma add_edges_from_props:
  "wf_graph G \<Longrightarrow> wf_graph (add_edges_from es G)"
  "has_edge (add_edges_from es G) a b \<longleftrightarrow> has_edge G a b \<or> (a, b) \<in> set es \<or> (b, a) \<in> set es"
  "set (nodes (add_edges_from es G)) = set (nodes G) \<union> fst ` set es \<union> snd ` set es"
proof (induction es arbitrary: G)
  case Nil
  { case 1 then show ?case by (simp add: add_edges_from_def) }
  { case 2 show ?case by (simp add: add_edges_from_def) }
  { case 3 show ?case by (simp add: add_edges_from_def) }
next
  case (Cons e es)
  obtain u v where e: "e = (u, v)" by (cases e)
  { case 1 then show ?case unfolding e add_edges_from_Cons
      by (intro Cons.IH(1) wf_add_edge) }
  { case 2 show ?case unfolding e add_edges_from_Cons Cons.IH(2) has_edge_add_edge by auto }
  { case 3 show ?case unfolding e add_edges_from_Cons Cons.IH(3) add_edge_nodes by auto }
qed

text \<open>
  Claim C6, as amended. The graph built from an edge list has each node once, each
  neighbour of a node once, and the nodes and neighbours the list gives: its nodes are
  the end points of the pairs, and \<open>b\<close> is a neighbour of \<open>a\<close> exactly when \<open>(a, b)\<close> or
  \<open>(b, a)\<close> is in the list. No node is its own neighbour exactly when the list has no
  pair of equal end points: such a pair is recorded as a self-loop. Adding an edge that
  is present, in either orientation, changes nothing.
\<close>

theorem built_graph_edges:
  "distinct (nodes (build_graph es)) \<and>
   set (nodes (build_graph es)) = fst ` set es \<union> snd ` set es \<and>
   (\<forall>a \<in> set (nodes (build_graph es)).
      distinct (adj (build_graph es) a) \<and>
      set (adj (build_graph es) a) = {b. (a, b) \<in> set es \<or> (b, a) \<in> set es}) \<and>
   ((\<forall>a \<in> set (nodes (build_graph es)). a \<notin> set (adj (build_graph es) a)) \<longleftrightarrow>
      (\<forall>e \<in> set es. fst e \<noteq> snd e)) \<and>
   add_edge u v (add_edge u v G) = add_edge u v G \<and>
   add_edge v u (add_edge u v G) = add_edge u v G"
proof -
  let ?B = "build_graph es"
  have wf: "wf_graph ?B"
    unfolding build_graph_def by (rule add_edges_from_props(1)[OF wf_empty])
  have he: "has_edge ?B a b \<longleftrightarrow> (a, b) \<in> set es \<or> (b, a) \<in> set es" for a b
    unfolding build_graph_def add_edges_from_props(2)
    by (simp add: has_edge_def empty_graph_def)
  have nd: "set (nodes ?B) = fst ` set es \<union> snd ` set es"
    unfolding build_graph_def add_edges_from_props(3) by (simp add: empty_graph_def)
  have adj: "set (adj ?B a) = {b. (a, b) \<in> set es \<or> (b, a) \<in> set es}"
    if "a \<in> set (nodes ?B)" for a
    using he[of a] that by (auto simp: has_edge_def)
  have loops: "(\<forall>a \<in> set (nodes ?B). a \<notin> set (adj ?B a)) \<longleftrightarrow> (\<forall>e \<in> set es. fst e \<noteq> snd e)"
  proof
    assume l: "\<forall>a \<in> set (nodes ?B). a \<notin> set (adj ?B a)"
    show "\<forall>e \<in> set es. fst e \<noteq> snd e"
    proof
      fix e assume e: "e \<in> set es"
      then have "fst e \<in> set (nodes ?B)" unfolding nd by simp
      then have "fst e \<notin> {b. (fst e, b) \<in> set es \<or> (b, fst e) \<in> set es}"
        using l adj by blast
      then have "(fst e, fst e) \<notin> set es" by simp
      then show "fst e \<noteq> snd e" using e by (cases e) auto
    qed
  next
    assume n: "\<forall>e \<in> set es. fst e \<noteq> snd e"
    show "\<forall>a \<in> set (nodes ?B). a \<notin> set (adj ?B a)"
    proof
      fix a assume a: "a \<in> set (nodes ?B)"
      have "(a, a) \<notin> set es" using n by force
      then show "a \<notin> set (adj ?B a)" unfolding adj[OF a] by simp
    qed
  qed
  have per: "\<forall>a \<in> set (nodes ?B).
      distinct (adj ?B a) \<and> set (adj ?B a) = {b. (a, b) \<in> set es \<or> (b, a) \<in> set es}"
    using wf_distinct[OF wf] adj by blast
  show ?thesis
    by (intro conjI wf_distinct_nodes[OF wf] nd per loops add_edge_twice add_edge_reversed)
qed

theorem built_graph_edges_witness:
  "nodes (build_graph [(0::nat, 1), (1, 0), (0, 1), (2, 2)]) = [0, 1, 2] \<and>
   map (adj (build_graph [(0::nat, 1), (1, 0), (0, 1), (2, 2)])) [0, 1, 2] = [[1], [0], [2]] \<and>
   set (adj (build_graph [(0::nat, 1), (1, 0), (0, 1), (2, 2)]) 1) = {0}"
proof -
  let ?es = "[(0::nat, 1::nat), (1, 0), (0, 1), (2, 2)]"
  note t = built_graph_edges[of ?es "0::nat" 0 empty_graph]
  note per = t[THEN conjunct2, THEN conjunct2, THEN conjunct1]
  have a: "nodes (build_graph ?es) = [0, 1, 2]" by code_simp
  have b: "map (adj (build_graph ?es)) [0, 1, 2] = [[1], [0], [2]]" by code_simp
  have m: "1 \<in> set (nodes (build_graph ?es))" unfolding a by simp
  have "set (adj (build_graph ?es) 1) = {b. (1, b) \<in> set ?es \<or> (b, 1) \<in> set ?es}"
    using bspec[OF per m] by (rule conjunct2)
  also have "\<dots> = {0}" by (simp add: set_eq_iff) 
  finally have c: "set (adj (build_graph ?es) 1) = {0}" .
  show ?thesis using a b c by (intro conjI)
qed

text \<open>
  Claim C6 as it is stated fails on the edge list with the one pair (0, 0): the graph
  built has the node 0 as its own neighbour, with degree 2.
\<close>

theorem self_loop_kept_counterexample:
  "nodes (build_graph [(0::nat, 0)]) = [0] \<and> adj (build_graph [(0::nat, 0)]) 0 = [0] \<and>
   degree (build_graph [(0::nat, 0)]) 0 = 2 \<and> \<not> no_self_loops (build_graph [(0::nat, 0)])"
  by code_simp

section \<open>A payload that cannot be read\<close>

text \<open>
  Claim C7 at a payload whose node object has no \<open>x\<close>: \<open>visualize_planarity_test\<close>
  returns no image and puts the message of the parsing failure in the fifth place of
  its result, the place of the type; the endpoint reads the fourth place, the place of
  the title, which is \<open>None\<close>, so its response has the status 400 and the error \<open>null\<close>:
  the parsing failure does not reach the caller.
\<close>

theorem parse_failure_lost:
  "visualize_planarity_test C rest payload_without_x =
     (None, None, None, None,
      Some (''Data parsing error: '' @ [CHR 0x27, CHR ''x'', CHR 0x27]), None) \<and>
   planarity_api C rest payload_without_x = Inr (ErrorBody None 400)"
  by (simp add: visualize_planarity_test_def planarity_api_def payload_without_x_def
      parse_graph_data_def bind_exc_def subscript_def iterate_def truthy_def contains_key_def)

section \<open>Properties of the renderer\<close>

lemma pos_get_has: "pos_has pos n \<Longrightarrow> pos_get pos n = Inr (the (map_of pos n))"
  by (auto simp: pos_has_def pos_get_def)

lemma draw_edges_eq:
  "draw_edges pos hl c es =
     Inr (map (line_for pos c 2 ''0.75'')
            (filter (\<lambda>e. positioned pos e \<and> sort_pair e \<notin> set hl) es))"
proof (induction es)
  case Nil
  show ?case by simp
next
  case (Cons e es)
  obtain u v where e: "e = (u, v)" by (cases e)
  show ?case unfolding e
    by (simp add: Cons.IH positioned_def pos_get_has line_for_def split: prod.splits)
qed

lemma draw_highlights_eq:
  "draw_highlights pos c hl = Inr (map (line_for pos c 4 ''0.95'') (filter (positioned pos) hl))"
proof (induction hl)
  case Nil
  show ?case by simp
next
  case (Cons e es)
  obtain u v where e: "e = (u, v)" by (cases e)
  show ?case unfolding e
    by (simp add: Cons.IH positioned_def pos_get_has line_for_def split: prod.splits)
qed

lemma draw_nodes_eq:
  "draw_nodes str_of pos r f s l ns =
     Inr (concat (map (node_parts str_of pos r f s l) (filter (pos_has pos) ns)))"
proof (induction ns)
  case Nil
  show ?case by simp
next
  case (Cons n ns)
  show ?case
    by (simp add: Cons.IH pos_get_has node_parts_def split: prod.splits)
qed

lemma normalize_positions_returns:
  "\<exists>min_x min_y w h. normalize_positions A pos = Inr (min_x, min_y, w, h)"
  by (cases pos) (simp_all add: normalize_positions_def py_min_def py_max_def Let_def)

lemma graph_to_svg_struct:
  "\<exists>vx vy vw vh. graph_to_svg A str_of G pos hle title wpx hpx st =
     Inr ([XmlDecl, SvgOpen vx vy vw vh wpx hpx]
          @ title_parts title
          @ map (line_for pos (get_or (style_edge_color (get_or st empty_style)) ''#444'') 2 ''0.75'')
              (filter (\<lambda>e. positioned pos e \<and> sort_pair e \<notin> set (normalized_highlights hle))
                 (edges G))
          @ map (line_for pos (get_or (style_highlight_color (get_or st empty_style)) ''#e63946'')
                   4 ''0.95'')
              (filter (positioned pos) (normalized_highlights hle))
          @ concat (map (node_parts str_of pos (get_or (style_r (get_or st empty_style)) 18)
                           (get_or (style_fill (get_or st empty_style)) ''#76c7ff'')
                           (get_or (style_stroke (get_or st empty_style)) ''#1f6feb'')
                           (get_or (style_label (get_or st empty_style)) ''#ffffff''))
                      (filter (pos_has pos) (nodes G)))
          @ [SvgClose])"
proof -
  obtain min_x min_y w h where n: "normalize_positions A pos = Inr (min_x, min_y, w, h)"
    using normalize_positions_returns[of A pos] by blast
  show ?thesis
    by (simp add: graph_to_svg_def n Let_def draw_edges_eq draw_highlights_eq draw_nodes_eq
        title_parts_def normalized_highlights_def)
qed

lemma lines_of_append: "lines_of k (xs @ ys) = lines_of k xs @ lines_of k ys"
  by (induction k xs rule: lines_of.induct) simp_all

lemma lines_of_line_for:
  "lines_of k (line_for pos c w opa e # ps) = (if w = k then e # lines_of k ps else lines_of k ps)"
  by (simp add: line_for_def)

lemma lines_of_map_line: "lines_of k (map (line_for pos c w opa) es) = (if w = k then es else [])"
  by (induction es) (auto simp: lines_of_line_for)

lemma lines_of_node_parts: "lines_of k (node_parts str_of pos r f s l n @ ps) = lines_of k ps"
  by (simp add: node_parts_def)

lemma lines_of_nodes: "lines_of k (concat (map (node_parts str_of pos r f s l) ns)) = []"
  by (induction ns) (simp_all add: lines_of_node_parts)

lemma lines_of_title: "lines_of k (title_parts t) = []"
  by (simp add: title_parts_def split: option.splits)

lemma positioned_sort: "positioned pos (sort_pair e) = positioned pos e"
  by (cases e) (auto simp: positioned_def sort_pair_def)

lemma sort_pair_idem: "sort_pair (sort_pair e) = sort_pair e"
  by (cases e) (auto simp: sort_pair_def)

lemma normalized_sorted: "h \<in> set (normalized_highlights hle) \<Longrightarrow> sort_pair h = h"
  by (auto simp: normalized_highlights_def sort_pair_idem split: option.splits)

lemma part_nodes_line: "part_nodes (line_for pos c w opa e) = {fst e, snd e}"
  by (simp add: line_for_def)

lemma in_node_parts: "p \<in> set (node_parts str_of pos r f s l n) \<Longrightarrow> part_nodes p = {n}"
  by (auto simp: node_parts_def)

lemma in_title_parts: "p \<in> set (title_parts t) \<Longrightarrow> part_nodes p = {}"
  by (auto simp: title_parts_def split: option.splits if_splits)

lemma graph_to_svg_returns: "\<exists>parts. graph_to_svg A str_of G pos hle title wpx hpx st = Inr parts"
  using graph_to_svg_struct[of A str_of G pos hle title wpx hpx st] by blast

lemma rendered_parts:
  assumes r: "graph_to_svg A str_of G pos hle title wpx hpx st = Inr parts" and p: "p \<in> set parts"
  shows "\<forall>n \<in> part_nodes p. pos_has pos n"
proof -
  let ?P = "filter (\<lambda>e. positioned pos e \<and> sort_pair e \<notin> set (normalized_highlights hle)) (edges G)"
  let ?B = "filter (positioned pos) (normalized_highlights hle)"
  let ?N = "filter (pos_has pos) (nodes G)"
  from graph_to_svg_struct[of A str_of G pos hle title wpx hpx st] r p consider
      "part_nodes p = {}"
    | c e where "e \<in> set ?P" "p = line_for pos c 2 ''0.75'' e"
    | c e where "e \<in> set ?B" "p = line_for pos c 4 ''0.95'' e"
    | rr f s l n where "n \<in> set ?N" "p \<in> set (node_parts str_of pos rr f s l n)"
    using in_title_parts[of p title] by auto
  then show ?thesis
  proof cases
    case 1
    then show ?thesis by simp
  next
    case 2
    then have "positioned pos e" by simp
    then show ?thesis unfolding 2(2) part_nodes_line by (auto simp: positioned_def)
  next
    case 3
    then have "positioned pos e" by simp
    then show ?thesis unfolding 3(2) part_nodes_line by (auto simp: positioned_def)
  next
    case 4
    then have "pos_has pos n" by simp
    then show ?thesis using in_node_parts[OF 4(2)] by auto
  qed
qed

lemma rendered_lines:
  assumes "graph_to_svg A str_of G pos hle title wpx hpx st = Inr parts"
  shows "lines_of 2 parts =
           filter (\<lambda>e. positioned pos e \<and> sort_pair e \<notin> set (normalized_highlights hle)) (edges G)"
    and "lines_of 4 parts = filter (positioned pos) (normalized_highlights hle)"
  using assms graph_to_svg_struct[of A str_of G pos hle title wpx hpx st]
  by (auto simp: lines_of_append lines_of_map_line lines_of_nodes lines_of_title)

text \<open>
  Claim C5, as amended. Rendering always succeeds. The plain lines (stroke width 2) are
  the edges of the graph whose two end points have positions and whose sorted pair is
  not in the highlight set. The emphasised lines (stroke width 4) are the pairs of the
  highlight set whose two end points have positions, whether or not the pair is an edge
  of the graph. When every pair of the highlight set is the sorted pair of an edge of
  the graph, the lines drawn are, up to orientation, exactly the positioned edges of the
  graph.
\<close>

theorem highlight_lines:
  "\<exists>parts. graph_to_svg A str_of G pos hle title wpx hpx st = Inr parts \<and>
     lines_of 2 parts =
       filter (\<lambda>e. positioned pos e \<and> sort_pair e \<notin> set (normalized_highlights hle)) (edges G) \<and>
     lines_of 4 parts = filter (positioned pos) (normalized_highlights hle) \<and>
     (set (normalized_highlights hle) \<subseteq> sort_pair ` set (edges G) \<longrightarrow>
        sort_pair ` (set (lines_of 2 parts) \<union> set (lines_of 4 parts)) =
        sort_pair ` {e \<in> set (edges G). positioned pos e})"
proof -
  obtain parts where r: "graph_to_svg A str_of G pos hle title wpx hpx st = Inr parts"
    using graph_to_svg_returns by blast
  note l = rendered_lines[OF r]
  let ?H = "normalized_highlights hle"
  have "sort_pair ` (set (lines_of 2 parts) \<union> set (lines_of 4 parts)) =
        sort_pair ` {e \<in> set (edges G). positioned pos e}"
    if sub: "set ?H \<subseteq> sort_pair ` set (edges G)"
  proof (intro equalityI subsetI)
    fix x assume "x \<in> sort_pair ` (set (lines_of 2 parts) \<union> set (lines_of 4 parts))"
    then consider e where "e \<in> set (edges G)" "positioned pos e" "x = sort_pair e"
      | h where "h \<in> set ?H" "positioned pos h" "x = sort_pair h"
      unfolding l by auto
    then show "x \<in> sort_pair ` {e \<in> set (edges G). positioned pos e}"
    proof cases
      case 1
      then show ?thesis by blast
    next
      case 2
      obtain e where e: "e \<in> set (edges G)" "h = sort_pair e" using sub 2(1) by blast
      have "positioned pos e" using 2(2) unfolding e(2) positioned_sort .
      moreover have "x = sort_pair e" using 2(3) normalized_sorted[OF 2(1)] e(2) by simp
      ultimately show ?thesis using e(1) by blast
    qed
  next
    fix x assume "x \<in> sort_pair ` {e \<in> set (edges G). positioned pos e}"
    then obtain e where e: "e \<in> set (edges G)" "positioned pos e" "x = sort_pair e" by blast
    show "x \<in> sort_pair ` (set (lines_of 2 parts) \<union> set (lines_of 4 parts))"
    proof (cases "sort_pair e \<in> set ?H")
      case False
      then have "e \<in> set (lines_of 2 parts)" unfolding l using e by simp
      then show ?thesis using e(3) by blast
    next
      case True
      then have "sort_pair e \<in> set (lines_of 4 parts)"
        unfolding l using e(2) by (simp add: positioned_sort)
      moreover have "x = sort_pair (sort_pair e)" using e(3) by (simp add: sort_pair_idem)
      ultimately show ?thesis by blast
    qed
  qed
  then show ?thesis using r l by blast
qed

theorem highlight_lines_witness:
  "map_sum id (lines_of 2)
     (graph_to_svg example_arith str_digit path3 pos3 (Some [(1, 0)]) None 800 800 None)
     = Inr [(1, 2)] \<and>
   map_sum id (lines_of 4)
     (graph_to_svg example_arith str_digit path3 pos3 (Some [(1, 0)]) None 800 800 None)
     = Inr [(0, 1)]"
proof -
  obtain parts where r:
    "graph_to_svg example_arith str_digit path3 pos3 (Some [(1, 0)]) None 800 800 None = Inr parts"
    "lines_of 2 parts =
       filter (\<lambda>e. positioned pos3 e \<and> sort_pair e \<notin> set (normalized_highlights (Some [(1, 0)])))
         (edges path3)"
    "lines_of 4 parts = filter (positioned pos3) (normalized_highlights (Some [(1, 0)]))"
    using highlight_lines[of example_arith str_digit path3 pos3 "Some [(1, 0)]" None 800 800 None]
    by blast
  have a: "filter (\<lambda>e. positioned pos3 e \<and> sort_pair e \<notin> set (normalized_highlights (Some [(1, 0)])))
         (edges path3) = [(1, 2)]"
    by code_simp
  have b: "filter (positioned pos3) (normalized_highlights (Some [(1::nat, 0)])) = [(0, 1)]"
    by code_simp
  show ?thesis using r a b by simp
qed

text \<open>
  Claim C5 as it is stated fails on the path 0 - 1 - 2 with the highlight pair (2, 0):
  the pair is not an edge of the graph, and the renderer draws an emphasised line for it.
\<close>

theorem highlight_not_edge_counterexample:
  "map_sum id (lines_of 4)
     (graph_to_svg example_arith str_digit path3 pos3 (Some [(2, 0)]) None 800 800 None)
     = Inr [(0, 2)] \<and>
   \<not> has_edge path3 0 2 \<and> \<not> has_edge path3 2 0"
  by code_simp

text \<open>
  The SVG renderer passes over a node without a position: rendering returns a result,
  and no element of it is drawn for that node.
\<close>

lemma graph_to_svg_skips_unpositioned:
  assumes "\<not> pos_has pos n"
  shows "\<exists>parts. graph_to_svg A str_of G pos hle title wpx hpx st = Inr parts \<and>
           (\<forall>p \<in> set parts. n \<notin> part_nodes p)"
proof -
  obtain parts where r: "graph_to_svg A str_of G pos hle title wpx hpx st = Inr parts"
    using graph_to_svg_returns by blast
  have "n \<notin> part_nodes p" if "p \<in> set parts" for p
    using rendered_parts[OF r that] assms by blast
  then show ?thesis using r by blast
qed

text \<open>
  Claim C9 at the path 0 - 1 - 2 with positions for the nodes 0 and 1 only. The first
  drawing statement of the entry point that plots with the library raises \<open>KeyError\<close>
  at the edge to the node 2. The SVG renderer, on the same graph and positions,
  returns the line of the edge between 0 and 1 and the circles and labels of 0 and 1,
  and nothing for the node 2.
\<close>

theorem plotting_path_raises:
  "edges path3 = [(0, 1), (1, 2)] \<and> map fst pos2 = [0, 1] \<and>
   draw_networkx_edges path3 pos2 None = Inl KeyError \<and>
   map_sum id (map part_nodes)
     (graph_to_svg example_arith str_digit path3 pos2 None None 800 800 None)
     = Inr [{}, {}, {0, 1}, {0}, {0}, {1}, {1}, {}]"
  by code_simp

end
